theory Spec2Isabelle
  imports Complex_Main "HOL-Library.Sublist" "HOL-Library.AList"
begin

section \<open>Python values used by fan\_speed\_monitor.py\<close>

text \<open>
  A Python \<^verbatim>\<open>str\<close> is modelled as a \<^typ>\<open>string\<close>: the list of its code points, for
  code points below 256 (Latin-1). Every literal of the script lies in that range; the
  degree sign of the script is the single code point \<open>0xB0\<close>. Within that range the
  character classes below are the ones CPython uses.

  A Python \<^verbatim>\<open>dict\<close> is an association list with distinct keys in insertion order;
  an item assignment is \<^const>\<open>AList.update\<close> (an existing key keeps its place, a new
  key goes to the end), and its truth value is that of being non-empty.
\<close>

datatype exn =
    TimeoutExpired
  | FileNotFoundError
  | ValueError
  | IndexError
  | UnboundLocalError
  | OverflowError
  | OSError string

text \<open>
  A Python \<^verbatim>\<open>float\<close>. \<open>Finite 0\<close> is \<^verbatim>\<open>0.0\<close> and \<open>NegZero\<close> is \<^verbatim>\<open>-0.0\<close>; for
  \<open>q \<noteq> 0\<close>, \<open>Finite q\<close> is the double nearest to \<open>q\<close>, with \<open>q\<close> kept as it is:
  the rounding of the mantissa is not modelled. What rounding does at the two ends of
  the range is: a magnitude that rounds beyond the largest double becomes an infinity,
  and one that rounds below the smallest double becomes a zero.
\<close>

datatype pyfloat = Finite rat | PosInf | NegInf | NaN | NegZero

text \<open>
  The least magnitude that rounds to infinity (half way between the largest double and
  \<open>2 ^ 1024\<close>), and the greatest that rounds to zero (half the smallest double).
\<close>

definition float_overflow_bound :: rat where
  "float_overflow_bound = 2 ^ 1024 - 2 ^ 970"

definition float_underflow_bound :: rat where
  "float_underflow_bound = 1 / 2 ^ 1075"

text \<open>The float a magnitude \<open>a \<ge> 0\<close> is rounded to.\<close>

definition round_mag :: "rat \<Rightarrow> pyfloat" where
  "round_mag a =
     (if float_overflow_bound \<le> a then PosInf
      else if a \<le> float_underflow_bound then Finite 0
      else Finite a)"

definition NL :: char where
  "NL = CHR 0x0A"

definition DEG :: char where
  "DEG = CHR 0xB0"

text \<open>\<^verbatim>\<open>needle in hay\<close> on strings.\<close>

fun str_in :: "string \<Rightarrow> string \<Rightarrow> bool" where
  "str_in needle [] = (needle = [])"
| "str_in needle (c # cs) = (prefix needle (c # cs) \<or> str_in needle cs)"

text \<open>\<^verbatim>\<open>s.split(sep)\<close> for a one-character separator: never an empty list.\<close>

fun split_chr :: "char \<Rightarrow> string \<Rightarrow> string list" where
  "split_chr sep [] = [[]]"
| "split_chr sep (c # cs) =
     (if c = sep then [] # split_chr sep cs
      else (case split_chr sep cs of [] \<Rightarrow> [[c]] | p # ps \<Rightarrow> (c # p) # ps))"

text \<open>\<^verbatim>\<open>str.isspace\<close> on Latin-1, the characters \<^verbatim>\<open>str.strip()\<close> removes.\<close>

definition is_space :: "char \<Rightarrow> bool" where
  "is_space c = (of_char c \<in> {9, 10, 11, 12, 13, 28, 29, 30, 31, 32, 133, 160 :: nat})"

definition strip :: "string \<Rightarrow> string" where
  "strip s = rev (dropWhile is_space (rev (dropWhile is_space s)))"

text \<open>
  The whitespace \<^verbatim>\<open>int()\<close> and \<^verbatim>\<open>float()\<close> skip at both ends of their argument:
  the ASCII ones of \<^verbatim>\<open>Py_ISSPACE\<close>, and the two Latin-1 spaces, which the
  conversion first turns into blanks.
\<close>

definition is_num_space :: "char \<Rightarrow> bool" where
  "is_num_space c = (of_char c \<in> {9, 10, 11, 12, 13, 32, 133, 160 :: nat})"

definition num_strip :: "string \<Rightarrow> string" where
  "num_strip s = rev (dropWhile is_num_space (rev (dropWhile is_num_space s)))"

definition is_digit :: "char \<Rightarrow> bool" where
  "is_digit c = (48 \<le> (of_char c :: nat) \<and> (of_char c :: nat) \<le> 57)"

definition digit_val :: "char \<Rightarrow> nat" where
  "digit_val c = of_char c - 48"

definition dec_nat :: "string \<Rightarrow> nat" where
  "dec_nat s = foldl (\<lambda>n c. 10 * n + digit_val c) 0 s"

definition not_underscore :: "char \<Rightarrow> bool" where
  "not_underscore c = (c \<noteq> CHR ''_'')"

text \<open>A digit part: digits, with single underscores allowed between two digits.\<close>

fun digitpart :: "string \<Rightarrow> bool" where
  "digitpart [] = False"
| "digitpart [c] = is_digit c"
| "digitpart (c # d # cs) =
     (is_digit c \<and> (if d = CHR ''_'' then digitpart cs else digitpart (d # cs)))"

definition split_sign :: "string \<Rightarrow> bool \<times> string" where
  "split_sign s =
     (case s of
        [] \<Rightarrow> (False, s)
      | c # r \<Rightarrow> if c = CHR ''-'' then (True, r) else if c = CHR ''+'' then (False, r) else (False, s))"

text \<open>
  \<^verbatim>\<open>int(s)\<close> for a string, base 10: surrounding whitespace, an optional sign, a digit
  part. More than 4300 digits are refused (the default of
  \<^verbatim>\<open>sys.get_int_max_str_digits()\<close>). Every failure is a \<^verbatim>\<open>ValueError\<close>.
\<close>

definition int_max_str_digits :: nat where
  "int_max_str_digits = 4300"

definition py_int :: "string \<Rightarrow> exn + int" where
  "py_int s =
     (case split_sign (num_strip s) of (neg, body) \<Rightarrow>
        if digitpart body \<and> length (filter not_underscore body) \<le> int_max_str_digits
        then Inr ((if neg then - 1 else 1) * int (dec_nat (filter not_underscore body)))
        else Inl ValueError)"

text \<open>
  \<^verbatim>\<open>n / 1000.0\<close> for an int \<open>n\<close>: the int is converted to a float first, which raises
  \<^verbatim>\<open>OverflowError\<close> when it rounds beyond the largest double. The quotient of a
  float that an int converts to is never an infinity, and is zero only for \<open>n = 0\<close>.
\<close>

definition int_div_1000 :: "int \<Rightarrow> exn + pyfloat" where
  "int_div_1000 n =
     (if float_overflow_bound \<le> \<bar>of_int n\<bar> then Inl OverflowError
      else Inr (Finite (of_int n / 1000)))"

text \<open>
  \<^verbatim>\<open>float(s)\<close> for a string. Underscores must stand between two digits and are then
  removed; after the surrounding whitespace comes an optional sign and either
  \<^verbatim>\<open>inf\<close>, \<^verbatim>\<open>infinity\<close>, \<^verbatim>\<open>nan\<close> (in any case) or a decimal number with an
  optional exponent. Every failure is a \<^verbatim>\<open>ValueError\<close>; a number out of range is
  no failure, it gives an infinity or a zero. \<open>parse_decimal\<close> is the exact value of the
  decimal number, which \<open>parse_abs_float\<close> rounds; the sign is applied last.
\<close>

fun underscores_ok :: "char \<Rightarrow> string \<Rightarrow> bool" where
  "underscores_ok prev [] = (prev \<noteq> CHR ''_'')"
| "underscores_ok prev (c # cs) =
     ((if c = CHR ''_'' then is_digit prev else (prev \<noteq> CHR ''_'' \<or> is_digit c))
      \<and> underscores_ok c cs)"

definition lower :: "char \<Rightarrow> char" where
  "lower c = (if 65 \<le> (of_char c :: nat) \<and> (of_char c :: nat) \<le> 90
              then char_of ((of_char c :: nat) + 32) else c)"

definition parse_decimal :: "string \<Rightarrow> rat option" where
  "parse_decimal s =
     (let ip = takeWhile is_digit s;
          r1 = dropWhile is_digit s;
          has_point = (r1 \<noteq> [] \<and> hd r1 = CHR ''.'');
          fp = (if has_point then takeWhile is_digit (tl r1) else []);
          r2 = (if has_point then dropWhile is_digit (tl r1) else r1);
          mant = of_nat (dec_nat (ip @ fp)) / 10 ^ length fp
      in if ip = [] \<and> fp = [] then None
         else if r2 = [] then Some mant
         else if hd r2 = CHR ''e'' \<or> hd r2 = CHR ''E'' then
           (case split_sign (tl r2) of (eneg, ds) \<Rightarrow>
              if ds \<noteq> [] \<and> list_all is_digit ds
              then Some (if eneg then mant / 10 ^ dec_nat ds else mant * 10 ^ dec_nat ds)
              else None)
         else None)"

definition parse_abs_float :: "string \<Rightarrow> pyfloat option" where
  "parse_abs_float s =
     (if map lower s = ''inf'' \<or> map lower s = ''infinity'' then Some PosInf
      else if map lower s = ''nan'' then Some NaN
      else map_option round_mag (parse_decimal s))"

fun fneg :: "pyfloat \<Rightarrow> pyfloat" where
  "fneg (Finite q) = (if q = 0 then NegZero else Finite (- q))"
| "fneg PosInf = NegInf"
| "fneg NegInf = PosInf"
| "fneg NaN = NaN"
| "fneg NegZero = Finite 0"

definition py_float :: "string \<Rightarrow> exn + pyfloat" where
  "py_float s =
     (if \<not> underscores_ok (CHR 0x00) s then Inl ValueError
      else (case split_sign (num_strip (filter not_underscore s)) of (neg, body) \<Rightarrow>
              (case parse_abs_float body of
                 None \<Rightarrow> Inl ValueError
               | Some v \<Rightarrow> Inr (if neg then fneg v else v))))"

section \<open>External commands\<close>

text \<open>
  What \<^verbatim>\<open>subprocess.run(..., capture_output=True, text=True, timeout=5)\<close> can do:
  complete with some standard output, exceed the timeout, or not find the executable.
\<close>

datatype run_outcome = Completed string | TimedOut | NotFound

fun subprocess_run :: "run_outcome \<Rightarrow> exn + string" where
  "subprocess_run (Completed out) = Inr out"
| "subprocess_run TimedOut = Inl TimeoutExpired"
| "subprocess_run NotFound = Inl FileNotFoundError"

text \<open>Lines written to standard error, by the statement that prints them.\<close>

datatype stderr_msg = DriveReadError exn | LogWriteWarning exn

section \<open>TrueNASSensor.get\_drive\_temperatures\<close>

type_synonym temps_dict = "(string \<times> pyfloat option) list"

text \<open>
  The loop state: the dict \<^verbatim>\<open>temps\<close> and the local variable \<^verbatim>\<open>device_id\<close>, which
  is \<open>None\<close> as long as no assignment has bound it (the function has no assignment to
  it before the loop).
\<close>

type_synonym scan_state = "temps_dict \<times> string option"

text \<open>\<^verbatim>\<open>line.split('+')[1].split(DEG)[0]\<close>\<close>

definition temp_str :: "string \<Rightarrow> exn + string" where
  "temp_str line =
     (case split_chr (CHR ''+'') line of
        _ # p # _ \<Rightarrow> (case split_chr DEG p of q # _ \<Rightarrow> Inr q | [] \<Rightarrow> Inl IndexError)
      | _ \<Rightarrow> Inl IndexError)"

text \<open>The body of the inner \<^verbatim>\<open>try\<close>: the value to store, or the exception raised.\<close>

definition temp_value :: "string \<Rightarrow> exn + pyfloat" where
  "temp_value line = (case temp_str line of Inl e \<Rightarrow> Inl e | Inr s \<Rightarrow> py_float s)"

text \<open>One iteration of the loop over the lines.\<close>

definition drive_line :: "string \<Rightarrow> scan_state \<Rightarrow> exn + scan_state" where
  "drive_line line st =
     (case st of (temps, device_id) \<Rightarrow>
        if str_in ''drivetemp-scsi'' line then
          (let parts = split_chr (CHR ''-'') line in
           if 3 \<le> length parts
           then Inr (AList.update (last parts) None temps, Some (last parts))
           else Inr (temps, device_id))
        else if str_in ''temp1:'' line then
          (case device_id of
             None \<Rightarrow> Inl UnboundLocalError
           | Some d \<Rightarrow>
               if d \<noteq> [] \<and> d \<in> set (map fst temps) then
                 (case temp_value line of
                    Inr v \<Rightarrow> Inr (AList.update d (Some v) temps, device_id)
                  | Inl e \<Rightarrow>
                      if e = IndexError \<or> e = ValueError then Inr (temps, device_id)
                      else Inl e)
               else Inr (temps, device_id))
        else Inr (temps, device_id))"

fun drive_scan :: "string list \<Rightarrow> scan_state \<Rightarrow> exn + scan_state" where
  "drive_scan [] st = Inr st"
| "drive_scan (l # ls) st =
     (case drive_line l st of Inl e \<Rightarrow> Inl e | Inr st' \<Rightarrow> drive_scan ls st')"

text \<open>The body of the outer \<^verbatim>\<open>try\<close>.\<close>

definition drive_body :: "run_outcome \<Rightarrow> exn + temps_dict" where
  "drive_body r =
     (case subprocess_run r of
        Inl e \<Rightarrow> Inl e
      | Inr out \<Rightarrow>
          (case drive_scan (split_chr NL out) ([], None) of
             Inl e \<Rightarrow> Inl e
           | Inr st \<Rightarrow> Inr (fst st)))"

text \<open>
  The function: its result or the exception it lets through, and standard error after it.
\<close>

definition get_drive_temperatures ::
  "run_outcome \<Rightarrow> stderr_msg list \<Rightarrow> (exn + temps_dict) \<times> stderr_msg list" where
  "get_drive_temperatures r err =
     (case drive_body r of
        Inr temps \<Rightarrow> (Inr temps, err)
      | Inl e \<Rightarrow>
          if e = TimeoutExpired \<or> e = FileNotFoundError
          then (Inr [], err @ [DriveReadError e])
          else (Inl e, err))"

section \<open>TrueNASSensor.get\_cpu\_temperature\<close>

text \<open>
  The body of the \<^verbatim>\<open>try\<close>. The stripped standard output is tested for truth; when it
  is empty the body ends and the function goes on to its final \<^verbatim>\<open>return None\<close>.
\<close>

definition cpu_body :: "run_outcome \<Rightarrow> exn + pyfloat option" where
  "cpu_body r =
     (case subprocess_run r of
        Inl e \<Rightarrow> Inl e
      | Inr out \<Rightarrow>
          if strip out \<noteq> [] then
            (case py_int (strip out) of
               Inl e \<Rightarrow> Inl e
             | Inr temp_millidegrees \<Rightarrow>
                 (case int_div_1000 temp_millidegrees of
                    Inl e \<Rightarrow> Inl e
                  | Inr t \<Rightarrow> Inr (Some t)))
          else Inr None)"

definition get_cpu_temperature :: "run_outcome \<Rightarrow> exn + pyfloat option" where
  "get_cpu_temperature r =
     (case cpu_body r of
        Inr v \<Rightarrow> Inr v
      | Inl e \<Rightarrow> if e = TimeoutExpired \<or> e = ValueError then Inr None else Inl e)"

section \<open>TrueNASSensor.get\_fan\_status\<close>

type_synonym fans_dict = "(string \<times> int) list"

definition FAN_NAMES :: "string list" where
  "FAN_NAMES = [''FAN1'', ''FAN2'', ''FAN3'', ''FAN4'', ''FANA'', ''FANB'']"

text \<open>
  \<^verbatim>\<open>re.search(r'(\d{3,5})', line)\<close>, the text of group 1: at the leftmost position
  where three digits stand, as many digits as there are, up to five.
\<close>

fun re_search_d35 :: "string \<Rightarrow> string option" where
  "re_search_d35 [] = None"
| "re_search_d35 (c # cs) =
     (if 3 \<le> length (takeWhile is_digit (c # cs))
      then Some (take 5 (takeWhile is_digit (c # cs)))
      else re_search_d35 cs)"

text \<open>The inner loop over the channel names, for one line.\<close>

fun fan_names_loop :: "string \<Rightarrow> string list \<Rightarrow> fans_dict \<Rightarrow> exn + fans_dict" where
  "fan_names_loop line [] fans = Inr fans"
| "fan_names_loop line (fan_name # rest) fans =
     (if str_in fan_name line then
        (case re_search_d35 line of
           None \<Rightarrow> fan_names_loop line rest fans
         | Some g \<Rightarrow>
             (case py_int g of
                Inl e \<Rightarrow> Inl e
              | Inr rpm \<Rightarrow> fan_names_loop line rest (AList.update fan_name rpm fans)))
      else fan_names_loop line rest fans)"

fun fan_scan :: "string list \<Rightarrow> fans_dict \<Rightarrow> exn + fans_dict" where
  "fan_scan [] fans = Inr fans"
| "fan_scan (l # ls) fans =
     (case fan_names_loop l FAN_NAMES fans of
        Inl e \<Rightarrow> Inl e
      | Inr fans' \<Rightarrow> fan_scan ls fans')"

definition fan_body :: "run_outcome \<Rightarrow> exn + fans_dict option" where
  "fan_body r =
     (case subprocess_run r of
        Inl e \<Rightarrow> Inl e
      | Inr out \<Rightarrow>
          (case fan_scan (split_chr NL out) [] of
             Inl e \<Rightarrow> Inl e
           | Inr fans \<Rightarrow> Inr (if fans \<noteq> [] then Some fans else None)))"

definition get_fan_status :: "run_outcome \<Rightarrow> exn + fans_dict option" where
  "get_fan_status r =
     (case fan_body r of
        Inr v \<Rightarrow> Inr v
      | Inl e \<Rightarrow> if e = TimeoutExpired \<or> e = FileNotFoundError then Inr None else Inl e)"

section \<open>The clock, the log file and TrueNASSensor.log\_status\<close>

text \<open>A reading of \<^verbatim>\<open>datetime.now()\<close>.\<close>

record datetime =
  dt_year :: nat
  dt_month :: nat
  dt_day :: nat
  dt_hour :: nat
  dt_minute :: nat
  dt_second :: nat
  dt_microsecond :: nat

definition valid_datetime :: "datetime \<Rightarrow> bool" where
  "valid_datetime t =
     (1 \<le> dt_year t \<and> dt_year t \<le> 9999 \<and> 1 \<le> dt_month t \<and> dt_month t \<le> 12 \<and>
      1 \<le> dt_day t \<and> dt_day t \<le> 31 \<and> dt_hour t < 24 \<and> dt_minute t < 60 \<and>
      dt_second t < 60 \<and> dt_microsecond t < 1000000)"

definition digit_chr :: "nat \<Rightarrow> char" where
  "digit_chr n = char_of (48 + n mod 10)"

definition pad2 :: "nat \<Rightarrow> string" where
  "pad2 n = [digit_chr (n div 10), digit_chr n]"

definition pad4 :: "nat \<Rightarrow> string" where
  "pad4 n = [digit_chr (n div 1000), digit_chr (n div 100), digit_chr (n div 10), digit_chr n]"

definition pad6 :: "nat \<Rightarrow> string" where
  "pad6 n = [digit_chr (n div 100000), digit_chr (n div 10000), digit_chr (n div 1000),
             digit_chr (n div 100), digit_chr (n div 10), digit_chr n]"

text \<open>\<^verbatim>\<open>t.strftime('%Y%m%d')\<close>, the year written with four digits.\<close>

definition strftime_Ymd :: "datetime \<Rightarrow> string" where
  "strftime_Ymd t = pad4 (dt_year t) @ pad2 (dt_month t) @ pad2 (dt_day t)"

definition isoformat :: "datetime \<Rightarrow> string" where
  "isoformat t =
     pad4 (dt_year t) @ ''-'' @ pad2 (dt_month t) @ ''-'' @ pad2 (dt_day t) @ ''T'' @
     pad2 (dt_hour t) @ '':'' @ pad2 (dt_minute t) @ '':'' @ pad2 (dt_second t) @
     (if dt_microsecond t = 0 then [] else ''.'' @ pad6 (dt_microsecond t))"

text \<open>The calendar date of a clock reading.\<close>

definition date_of :: "datetime \<Rightarrow> nat \<times> nat \<times> nat" where
  "date_of t = (dt_year t, dt_month t, dt_day t)"

text \<open>
  A \<^verbatim>\<open>Path\<close> \<^verbatim>\<open>directory / name\<close> is the pair of its directory and its file name.
  What the operating system answers to a directory creation or to an append is an
  input: success, or an \<^verbatim>\<open>OSError\<close> with its message.
\<close>

type_synonym path = "string \<times> string"

datatype io_outcome = IoOk | IoError string

record sensor =
  log_dir :: string
  log_file :: path

text \<open>
  \<^verbatim>\<open>TrueNASSensor.__init__\<close>: the directory is created, and the log file is named
  after the date read from the clock at this moment.
\<close>

definition sensor_init :: "string \<Rightarrow> io_outcome \<Rightarrow> datetime \<Rightarrow> exn + sensor" where
  "sensor_init dir mkdir_outcome now =
     (case mkdir_outcome of
        IoError msg \<Rightarrow> Inl (OSError msg)
      | IoOk \<Rightarrow>
          Inr \<lparr>log_dir = dir,
               log_file = (dir, ''fan_monitor_'' @ strftime_Ymd now @ ''.log'')\<rparr>)"

record status =
  timestamp :: string
  drive_temps :: temps_dict
  cpu_temp :: "pyfloat option"
  fan_status :: "fans_dict option"

text \<open>The files and standard error; the text printed on standard output is left out.\<close>

record world =
  files :: "path \<Rightarrow> string option"
  stderr :: "stderr_msg list"

text \<open>Everything one call of \<^verbatim>\<open>log_status\<close> reads from outside.\<close>

record env =
  clock :: datetime
  sensors_run :: run_outcome
  thermal_run :: run_outcome
  ipmitool_run :: run_outcome
  log_append :: io_outcome

text \<open>
  \<^verbatim>\<open>with open(path, 'a') as f: f.write(data)\<close>: the data goes after what the file
  holds, and a file that does not exist is created. A failing append is taken to leave
  the file as it was.
\<close>

definition append_file ::
  "path \<Rightarrow> string \<Rightarrow> io_outcome \<Rightarrow> (path \<Rightarrow> string option) \<Rightarrow> exn + (path \<Rightarrow> string option)" where
  "append_file p data outcome fs =
     (case outcome of
        IoError msg \<Rightarrow> Inl (OSError msg)
      | IoOk \<Rightarrow> Inr (fs(p \<mapsto> (case fs p of None \<Rightarrow> [] | Some old \<Rightarrow> old) @ data)))"

text \<open>\<^verbatim>\<open>except IOError\<close> catches \<^verbatim>\<open>OSError\<close> and its subclasses.\<close>

fun is_OSError :: "exn \<Rightarrow> bool" where
  "is_OSError (OSError msg) = True"
| "is_OSError FileNotFoundError = True"
| "is_OSError e = False"

text \<open>
  \<^verbatim>\<open>log_status\<close>, with \<^verbatim>\<open>json.dumps\<close> as the parameter \<open>dumps\<close>. The result is the
  status returned or the exception that leaves the function, and the world after it.
\<close>

definition log_status ::
  "(status \<Rightarrow> string) \<Rightarrow> sensor \<Rightarrow> env \<Rightarrow> world \<Rightarrow> (exn + status) \<times> world" where
  "log_status dumps self ev w =
     (case get_drive_temperatures (sensors_run ev) (stderr w) of
        (Inl e, err) \<Rightarrow> (Inl e, w\<lparr>stderr := err\<rparr>)
      | (Inr dt, err) \<Rightarrow>
          (case get_cpu_temperature (thermal_run ev) of
             Inl e \<Rightarrow> (Inl e, w\<lparr>stderr := err\<rparr>)
           | Inr ct \<Rightarrow>
               (case get_fan_status (ipmitool_run ev) of
                  Inl e \<Rightarrow> (Inl e, w\<lparr>stderr := err\<rparr>)
                | Inr fs \<Rightarrow>
                    (let st = \<lparr>timestamp = isoformat (clock ev), drive_temps = dt,
                               cpu_temp = ct, fan_status = fs\<rparr>
                     in case append_file (log_file self) (dumps st @ [NL]) (log_append ev)
                               (files w) of
                          Inr files' \<Rightarrow> (Inr st, w\<lparr>files := files', stderr := err\<rparr>)
                        | Inl e \<Rightarrow>
                            if is_OSError e
                            then (Inr st, w\<lparr>stderr := err @ [LogWriteWarning e]\<rparr>)
                            else (Inl e, w\<lparr>stderr := err\<rparr>)))))"

section \<open>Vocabulary of the properties\<close>

text \<open>
  The value line of the script's comment:
  \<^verbatim>\<open>temp1:        +41.0 C  (low  =  +0.0 C, high = +60.0 C)\<close>, with the degree sign
  before each \<^verbatim>\<open>C\<close>.
\<close>

definition value_line_41 :: string where
  "value_line_41 =
     ''temp1:        +41.0'' @ [DEG] @ ''C  (low  =  +0.0'' @ [DEG] @
     ''C, high = +60.0'' @ [DEG] @ ''C)''"

text \<open>
  The kinds of line the drive-temperature loop tells apart: a header line passes both
  tests of the first branch, and its device is the last hyphen-separated part; a value
  line reaches the test of the second branch and passes it.
\<close>

definition is_header :: "string \<Rightarrow> bool" where
  "is_header l = (str_in ''drivetemp-scsi'' l \<and> 3 \<le> length (split_chr (CHR ''-'') l))"

definition header_dev :: "string \<Rightarrow> string" where
  "header_dev l = last (split_chr (CHR ''-'') l)"

definition is_value_line :: "string \<Rightarrow> bool" where
  "is_value_line l = (\<not> str_in ''drivetemp-scsi'' l \<and> str_in ''temp1:'' l)"

text \<open>
  Two properties a list of lines may have: no two header lines name the same device;
  no value line stands before the first header line.
\<close>

definition distinct_devices :: "string list \<Rightarrow> bool" where
  "distinct_devices ls = distinct (map header_dev (filter is_header ls))"

definition headers_first :: "string list \<Rightarrow> bool" where
  "headers_first ls =
     list_all (\<lambda>l. \<not> is_value_line l) (takeWhile (\<lambda>l. \<not> is_header l) ls)"

text \<open>
  A dump as the sensors command prints it when another chip is listed before the drive:
  the block of the ACPI thermal zone, an empty line, then the block of drive \<open>f0\<close> with
  the value line of the script's comment.
\<close>

definition other_chip_first_dump :: string where
  "other_chip_first_dump =
     ''acpitz-acpi-0'' @ [NL] @ ''Adapter: ACPI interface'' @ [NL] @
     ''temp1:        +27.8'' @ [DEG] @ ''C  (crit = +119.0'' @ [DEG] @ ''C)'' @ [NL] @ [NL] @
     ''drivetemp-scsi-0-f0'' @ [NL] @ ''Adapter: SCSI adapter'' @ [NL] @ value_line_41"

text \<open>What one line gives for the speed: the number written by its first match, if any.\<close>

definition line_rpm :: "string \<Rightarrow> int option" where
  "line_rpm l = (case re_search_d35 l of None \<Rightarrow> None | Some g \<Rightarrow> Some (int (dec_nat g)))"

text \<open>A line counts for a channel when it holds the name and the search finds digits in it.\<close>

definition fan_line_match :: "string \<Rightarrow> string \<Rightarrow> bool" where
  "fan_line_match name l = (str_in name l \<and> re_search_d35 l \<noteq> None)"

text \<open>Some line of the output counts for some recognized channel.\<close>

definition fan_matched :: "string \<Rightarrow> bool" where
  "fan_matched out =
     list_ex (\<lambda>l. list_ex (\<lambda>name. fan_line_match name l) FAN_NAMES) (split_chr NL out)"

text \<open>Three digits stand at position \<open>i\<close> of the line.\<close>

definition digits_at :: "string \<Rightarrow> nat \<Rightarrow> bool" where
  "digits_at l i =
     (i + 3 \<le> length l \<and> is_digit (l ! i) \<and> is_digit (l ! (i + 1)) \<and> is_digit (l ! (i + 2)))"

text \<open>
  \<open>g\<close> is the first run of three to five digits of the line: no three digits stand at
  an earlier position, and \<open>g\<close> takes as many digits as follow, up to five.
\<close>

definition first_digit_run :: "string \<Rightarrow> string \<Rightarrow> bool" where
  "first_digit_run l g =
     (\<exists>pre post. l = pre @ g @ post \<and> 3 \<le> length g \<and> length g \<le> 5 \<and> list_all is_digit g \<and>
        (length g < 5 \<longrightarrow> post = [] \<or> \<not> is_digit (hd post)) \<and>
        (\<forall>i < length pre. \<not> digits_at l i))"

text \<open>Samples of standard output of the fan command.\<close>

definition fan_dump_sample :: string where
  "fan_dump_sample =
     ''FAN1 | 4200 RPM | ok'' @ [NL] @ ''FAN2 | 3000 RPM | ok'' @ [NL] @ ''FAN1 | 1234567 RPM''"

definition no_reading_line :: string where
  "no_reading_line = ''FAN1 | no reading | ns''"

text \<open>A poll in which nothing is read and the log is written.\<close>

definition sample_clock :: datetime where
  "sample_clock = \<lparr>dt_year = 2024, dt_month = 1, dt_day = 2, dt_hour = 3, dt_minute = 4,
                    dt_second = 5, dt_microsecond = 0\<rparr>"

definition sample_sensor :: sensor where
  "sample_sensor = \<lparr>log_dir = ''/var/log/fan_control'',
                     log_file = (''/var/log/fan_control'', ''fan_monitor_20240102.log'')\<rparr>"

definition empty_world :: world where
  "empty_world = \<lparr>files = (\<lambda>p. None), stderr = []\<rparr>"

definition quiet_env :: env where
  "quiet_env = \<lparr>clock = sample_clock, sensors_run = Completed [], thermal_run = Completed [],
                 ipmitool_run = NotFound, log_append = IoOk\<rparr>"

definition quiet_status :: status where
  "quiet_status = \<lparr>timestamp = ''2024-01-02T03:04:05'', drive_temps = [], cpu_temp = None,
                    fan_status = None\<rparr>"

text \<open>
  A sensor object constructed one second before midnight and polled at midnight, and a
  poll whose append is refused.
\<close>

definition eve_clock :: datetime where
  "eve_clock = \<lparr>dt_year = 2024, dt_month = 1, dt_day = 1, dt_hour = 23, dt_minute = 59,
                 dt_second = 59, dt_microsecond = 0\<rparr>"

definition midnight_clock :: datetime where
  "midnight_clock = \<lparr>dt_year = 2024, dt_month = 1, dt_day = 2, dt_hour = 0, dt_minute = 0,
                      dt_second = 0, dt_microsecond = 0\<rparr>"

definition eve_sensor :: sensor where
  "eve_sensor = \<lparr>log_dir = ''/var/log/fan_control'',
                  log_file = (''/var/log/fan_control'', ''fan_monitor_20240101.log'')\<rparr>"

definition midnight_env :: env where
  "midnight_env = \<lparr>clock = midnight_clock, sensors_run = Completed [], thermal_run = Completed [],
                    ipmitool_run = NotFound, log_append = IoOk\<rparr>"

definition denied_env :: env where
  "denied_env = \<lparr>clock = sample_clock, sensors_run = Completed [], thermal_run = Completed [],
                  ipmitool_run = NotFound, log_append = IoError ''Permission denied''\<rparr>"

definition midnight_status :: status where
  "midnight_status = \<lparr>timestamp = ''2024-01-02T00:00:00'', drive_temps = [], cpu_temp = None,
                       fan_status = None\<rparr>"

section \<open>Strings and the drive-temperature scan\<close>

lemma str_in_iff: "str_in n h \<longleftrightarrow> (\<exists>ps ss. h = ps @ n @ ss)"
proof (induction h)
  case Nil
  then show ?case by auto
next
  case (Cons c cs)
  show ?case
  proof
    assume "str_in n (c # cs)"
    then consider "prefix n (c # cs)" | "str_in n cs" by auto
    then show "\<exists>ps ss. c # cs = ps @ n @ ss"
    proof cases
      case 1
      then obtain ss where "c # cs = n @ ss" by (auto simp: prefix_def)
      then have "c # cs = [] @ n @ ss" by simp
      then show ?thesis by blast
    next
      case 2
      with Cons.IH obtain ps ss where "cs = ps @ n @ ss" by blast
      then have "c # cs = (c # ps) @ n @ ss" by simp
      then show ?thesis by blast
    qed
  next
    assume "\<exists>ps ss. c # cs = ps @ n @ ss"
    then obtain ps ss where e: "c # cs = ps @ n @ ss" by blast
    show "str_in n (c # cs)"
    proof (cases ps)
      case Nil
      with e have "prefix n (c # cs)" by (simp add: prefix_def)
      then show ?thesis by simp
    next
      case (Cons p ps')
      with e have "cs = ps' @ n @ ss" by simp
      with Cons.IH have "str_in n cs" by blast
      then show ?thesis by simp
    qed
  qed
qed

text \<open>
  Whatever the dict holds, a value line met while \<^verbatim>\<open>device_id\<close> is still unbound
  stops the scan with \<^verbatim>\<open>UnboundLocalError\<close>.
\<close>

lemma drive_scan_unbound:
  assumes "\<forall>x \<in> set pre. \<not> str_in ''drivetemp-scsi'' x"
    and "\<not> str_in ''drivetemp-scsi'' l" and "str_in ''temp1:'' l"
  shows "drive_scan (pre @ l # post) (temps, None) = Inl UnboundLocalError"
  using assms
proof (induction pre)
  case Nil
  then show ?case by (simp add: drive_line_def)
next
  case (Cons x xs)
  then show ?case by (simp add: drive_line_def)
qed

lemma drive_scan_append:
  "drive_scan (xs @ ys) st =
     (case drive_scan xs st of Inl e \<Rightarrow> Inl e | Inr st' \<Rightarrow> drive_scan ys st')"
  by (induction xs arbitrary: st) (auto split: sum.splits)

lemma drive_line_header:
  "is_header l \<Longrightarrow>
   drive_line l (temps, c) = Inr (AList.update (header_dev l) None temps, Some (header_dev l))"
  by (simp add: drive_line_def is_header_def header_dev_def Let_def)

lemma drive_line_short_header:
  "str_in ''drivetemp-scsi'' l \<Longrightarrow> length (split_chr (CHR ''-'') l) < 3 \<Longrightarrow>
   drive_line l st = Inr st"
  by (cases st) (simp add: drive_line_def)

lemma drive_line_other:
  "\<not> is_header l \<Longrightarrow> \<not> is_value_line l \<Longrightarrow> drive_line l st = Inr st"
  by (cases st) (auto simp: drive_line_def is_header_def is_value_line_def Let_def)

lemma drive_line_value:
  assumes "is_value_line l"
  shows "drive_line l (temps, Some d) =
     Inr (if d \<noteq> [] \<and> d \<in> set (map fst temps)
          then (case temp_value l of Inr v \<Rightarrow> AList.update d (Some v) temps | Inl e \<Rightarrow> temps)
          else temps, Some d)"
proof -
  have "temp_value l = Inl e \<Longrightarrow> e = IndexError \<or> e = ValueError" for e
    by (auto simp: temp_value_def temp_str_def py_float_def split: sum.splits list.splits if_splits prod.splits option.splits)
  with assms show ?thesis
    by (auto simp: drive_line_def is_value_line_def split: sum.splits)
qed

lemma drive_line_bound:
  "\<exists>temps' d'. drive_line l (temps, Some d) = Inr (temps', Some d')"
proof (cases "is_header l")
  case True
  then show ?thesis by (simp add: drive_line_header)
next
  case False
  show ?thesis
  proof (cases "is_value_line l")
    case True
    then show ?thesis by (simp add: drive_line_value)
  next
    case False
    with \<open>\<not> is_header l\<close> show ?thesis by (simp add: drive_line_other)
  qed
qed

lemma drive_scan_bound:
  "\<exists>temps' d'. drive_scan ls (temps, Some d) = Inr (temps', Some d')"
proof (induction ls arbitrary: temps d)
  case Nil
  then show ?case by simp
next
  case (Cons l ls)
  obtain t1 d1 where "drive_line l (temps, Some d) = Inr (t1, Some d1)"
    using drive_line_bound by blast
  with Cons.IH [of t1 d1] show ?case by simp
qed

lemma drive_scan_no_raise:
  "list_all (\<lambda>l. \<not> is_value_line l) (takeWhile (\<lambda>l. \<not> is_header l) ls) \<Longrightarrow>
   \<exists>st. drive_scan ls (temps, c) = Inr st"
proof (induction ls)
  case Nil
  then show ?case by simp
next
  case (Cons l ls)
  show ?case
  proof (cases "is_header l")
    case True
    then show ?thesis using drive_scan_bound by (simp add: drive_line_header) blast
  next
    case False
    with Cons.prems have "\<not> is_value_line l"
      and "list_all (\<lambda>l. \<not> is_value_line l) (takeWhile (\<lambda>l. \<not> is_header l) ls)"
      by simp_all
    with Cons.IH False show ?thesis by (simp add: drive_line_other)
  qed
qed

lemma update_fresh: "k \<notin> set (map fst al) \<Longrightarrow> map fst (AList.update k v al) = map fst al @ [k]"
  by (simp add: update_keys)

lemma update_present: "(k, b) \<in> set al \<Longrightarrow> map fst (AList.update k v al) = map fst al"
  by (force simp: update_keys)

lemma drive_line_keys:
  assumes "drive_line l (temps, c) = Inr (temps', c')"
  shows "map fst temps' =
     (if is_header l then map fst (AList.update (header_dev l) None temps) else map fst temps)"
proof (cases "is_header l")
  case True
  with assms show ?thesis by (simp add: drive_line_header)
next
  case False
  show ?thesis
  proof (cases "is_value_line l")
    case False
    with \<open>\<not> is_header l\<close> assms show ?thesis by (simp add: drive_line_other)
  next
    case True
    show ?thesis
    proof (cases c)
      case None
      with True assms show ?thesis by (simp add: drive_line_def is_value_line_def)
    next
      case (Some d)
      with True assms False show ?thesis
        by (auto simp: drive_line_value update_present split: sum.splits if_splits)
    qed
  qed
qed

lemma drive_scan_keys:
  assumes "drive_scan ls (temps, c) = Inr (temps', c')"
    and "distinct (map header_dev (filter is_header ls))"
    and "set (map header_dev (filter is_header ls)) \<inter> set (map fst temps) = {}"
  shows "map fst temps' = map fst temps @ map header_dev (filter is_header ls)"
  using assms
proof (induction ls arbitrary: temps c)
  case Nil
  then show ?case by simp
next
  case (Cons l ls)
  from Cons.prems(1) obtain t1 c1 where
    step: "drive_line l (temps, c) = Inr (t1, c1)" and rest: "drive_scan ls (t1, c1) = Inr (temps', c')"
    by (auto split: sum.splits)
  show ?case
  proof (cases "is_header l")
    case True
    with Cons.prems have fresh: "header_dev l \<notin> set (map fst temps)"
      and d: "distinct (map header_dev (filter is_header ls))"
      and notin: "header_dev l \<notin> set (map header_dev (filter is_header ls))"
      and disj: "set (map header_dev (filter is_header ls)) \<inter> set (map fst temps) = {}"
      by auto
    from drive_line_keys [OF step] True fresh
    have k1: "map fst t1 = map fst temps @ [header_dev l]" by (simp add: update_fresh)
    with notin disj have "set (map header_dev (filter is_header ls)) \<inter> set (map fst t1) = {}"
      by auto
    from Cons.IH [OF rest d this] k1 True show ?thesis by simp
  next
    case False
    with drive_line_keys [OF step] have k1: "map fst t1 = map fst temps" by simp
    with Cons.prems False Cons.IH [OF rest] show ?thesis by simp
  qed
qed

lemma drive_line_other_key:
  assumes "drive_line l (temps, Some c) = Inr (temps', c')"
    and "c \<noteq> d" and "is_header l \<longrightarrow> header_dev l \<noteq> d"
  shows "map_of temps' d = map_of temps d \<and> (\<exists>c''. c' = Some c'' \<and> c'' \<noteq> d)"
proof (cases "is_header l")
  case True
  with assms show ?thesis by (auto simp: drive_line_header update_conv')
next
  case False
  show ?thesis
  proof (cases "is_value_line l")
    case False
    with \<open>\<not> is_header l\<close> assms show ?thesis by (auto simp: drive_line_other)
  next
    case True
    with assms show ?thesis
      by (auto simp: drive_line_value update_conv' split: sum.splits if_splits)
  qed
qed

lemma drive_scan_other_key:
  assumes "drive_scan ls (temps, Some c) = Inr (temps', c')"
    and "c \<noteq> d" and "d \<notin> set (map header_dev (filter is_header ls))"
  shows "map_of temps' d = map_of temps d"
  using assms
proof (induction ls arbitrary: temps c)
  case Nil
  then show ?case by simp
next
  case (Cons l ls)
  from Cons.prems(1) obtain t1 c1 where
    step: "drive_line l (temps, Some c) = Inr (t1, c1)" and rest: "drive_scan ls (t1, c1) = Inr (temps', c')"
    by (auto split: sum.splits)
  from Cons.prems have "is_header l \<longrightarrow> header_dev l \<noteq> d" by auto
  from drive_line_other_key [OF step Cons.prems(2) this]
  obtain c2 where m: "map_of t1 d = map_of temps d" and c1: "c1 = Some c2" and ne: "c2 \<noteq> d"
    by blast
  from Cons.prems(3) have n: "d \<notin> set (map header_dev (filter is_header ls))"
    by (auto split: if_splits)
  from rest c1 have "drive_scan ls (t1, Some c2) = Inr (temps', c')" by simp
  from Cons.IH [OF this ne n] m show ?case by simp
qed

lemma drive_scan_noops:
  "\<forall>l \<in> set seg. \<not> is_value_line l \<and> \<not> is_header l \<Longrightarrow> drive_scan seg st = Inr st"
  by (induction seg) (simp_all add: drive_line_other)

lemma drive_scan_header_none:
  assumes "distinct (map header_dev (filter is_header (pre @ h # seg @ post)))"
    and "drive_scan (pre @ h # seg @ post) st0 = Inr (temps, c)"
    and "is_header h" and "\<forall>l \<in> set seg. \<not> is_value_line l \<and> \<not> is_header l"
    and "post = [] \<or> is_header (hd post)"
  shows "map_of temps (header_dev h) = Some None"
proof -
  let ?d = "header_dev h"
  from assms(2) obtain t1 c1 where pre: "drive_scan pre st0 = Inr (t1, c1)"
    and r1: "drive_scan (h # seg @ post) (t1, c1) = Inr (temps, c)"
    by (auto simp: drive_scan_append split: sum.splits)
  let ?t2 = "AList.update ?d None t1"
  from r1 assms(3) have r2: "drive_scan (seg @ post) (?t2, Some ?d) = Inr (temps, c)"
    by (simp add: drive_line_header)
  with assms(4) have r3: "drive_scan post (?t2, Some ?d) = Inr (temps, c)"
    by (simp add: drive_scan_append drive_scan_noops)
  have at: "map_of ?t2 ?d = Some None" by (simp add: update_conv')
  from assms(1,3) have notin: "?d \<notin> set (map header_dev (filter is_header post))" by auto
  show ?thesis
  proof (cases post)
    case Nil
    with r3 at show ?thesis by simp
  next
    case (Cons h2 post')
    with assms(5) have h2: "is_header h2" by simp
    with notin Cons have ne: "header_dev h2 \<noteq> ?d"
      and notin': "?d \<notin> set (map header_dev (filter is_header post'))" by auto
    from r3 Cons h2 have "drive_scan post' (AList.update (header_dev h2) None ?t2, Some (header_dev h2)) = Inr (temps, c)"
      by (simp add: drive_line_header)
    from drive_scan_other_key [OF this ne notin'] ne at show ?thesis
      by (simp add: update_conv')
  qed
qed

lemma split_chr_no_sep: "sep \<notin> set a \<Longrightarrow> split_chr sep a = [a]"
  by (induction a) auto

lemma split_chr_at_sep: "sep \<notin> set a \<Longrightarrow> split_chr sep (a @ sep # b) = a # split_chr sep b"
  by (induction a) auto

lemma value_line_41_facts:
  "is_value_line value_line_41" "temp_value value_line_41 = Inr (Finite 41)" "NL \<notin> set value_line_41"
    by (simp_all add: value_line_41_def is_value_line_def DEG_def NL_def temp_value_def temp_str_def
      py_float_def is_digit_def num_strip_def is_num_space_def not_underscore_def split_sign_def
      parse_abs_float_def lower_def parse_decimal_def dec_nat_def digit_val_def Let_def
      round_mag_def float_overflow_bound_def float_underflow_bound_def)

lemma drive_example:
  assumes "is_header h0" and "header_dev h0 = ''f0''" and "NL \<notin> set h0"
  shows "get_drive_temperatures (Completed (h0 @ [NL] @ value_line_41)) err
           = (Inr [(''f0'', Some (Finite 41))], err)"
proof -
  have "split_chr NL (h0 @ [NL] @ value_line_41) = [h0, value_line_41]"
    using assms(3) value_line_41_facts(3) by (simp add: split_chr_at_sep split_chr_no_sep)
  then show ?thesis
    using assms(1,2) value_line_41_facts(1,2)
    by (simp add: get_drive_temperatures_def drive_body_def drive_line_header drive_line_value)
qed

lemma sample_line_facts:
  "is_header ''drivetemp-scsi-0-f0''" "header_dev ''drivetemp-scsi-0-f0'' = ''f0''"
  "is_header ''drivetemp-scsi-0-f1''" "header_dev ''drivetemp-scsi-0-f1'' = ''f1''"
  "\<not> is_header ''Adapter: SCSI adapter''" "\<not> is_value_line ''Adapter: SCSI adapter''"
  "\<not> is_header value_line_41" "NL \<notin> set ''drivetemp-scsi-0-f0''"
  by (simp_all add: is_header_def header_dev_def is_value_line_def value_line_41_def NL_def)

section \<open>The fan-status scan\<close>

lemma digits_at_0: "digits_at l 0 \<longleftrightarrow> 3 \<le> length (takeWhile is_digit l)"
proof (cases l)
  case Nil
  then show ?thesis by (simp add: digits_at_def)
next
  case l1: (Cons a l1)
  show ?thesis
  proof (cases l1)
    case Nil
    with l1 show ?thesis by (simp add: digits_at_def)
  next
    case l2: (Cons b l2)
    show ?thesis
    proof (cases l2)
      case Nil
      with l1 l2 show ?thesis by (simp add: digits_at_def)
    next
      case (Cons c l3)
      with l1 l2 show ?thesis by (simp add: digits_at_def)
    qed
  qed
qed

lemma digits_at_Suc: "digits_at (c # cs) (Suc i) = digits_at cs i"
  by (auto simp: digits_at_def)

lemma re_search_none: "re_search_d35 l = None \<Longrightarrow> \<not> digits_at l i"
proof (induction l arbitrary: i)
  case Nil
  then show ?case by (simp add: digits_at_def)
next
  case (Cons c cs)
  then have short: "\<not> 3 \<le> length (takeWhile is_digit (c # cs))" and r: "re_search_d35 cs = None"
    by (auto split: if_splits)
  show ?case
  proof (cases i)
    case 0
    with short show ?thesis using digits_at_0 [of "c # cs"] by simp
  next
    case (Suc j)
    with Cons.IH [OF r] show ?thesis by (simp add: digits_at_Suc)
  qed
qed

lemma re_search_first: "re_search_d35 l = Some g \<Longrightarrow> first_digit_run l g"
proof (induction l)
  case Nil
  then show ?case by simp
next
  case (Cons c cs)
  let ?l = "c # cs"
  let ?run = "takeWhile is_digit ?l"
  show ?case
  proof (cases "3 \<le> length ?run")
    case True
    with Cons.prems have g: "g = take 5 ?run" by simp
    let ?post = "drop 5 ?run @ dropWhile is_digit ?l"
    have "take 5 ?run @ drop 5 ?run @ dropWhile is_digit ?l = ?l"
      by (simp only: append_assoc [symmetric] append_take_drop_id takeWhile_dropWhile_id)
    then have split: "?l = [] @ g @ ?post" by (simp only: g append_Nil)
    have len: "3 \<le> length g" "length g \<le> 5" using True by (simp_all add: g)
    have "set g \<subseteq> set ?run" unfolding g by (rule set_take_subset)
    then have dig: "list_all is_digit g"
      by (auto simp: list_all_iff dest: set_takeWhileD)
    have stop: "length g < 5 \<longrightarrow> ?post = [] \<or> \<not> is_digit (hd ?post)"
    proof
      assume "length g < 5"
      then have "drop 5 ?run = []" by (simp add: g)
      moreover have "dropWhile is_digit ?l = [] \<or> \<not> is_digit (hd (dropWhile is_digit ?l))"
        using hd_dropWhile [of is_digit ?l] by blast
      ultimately show "?post = [] \<or> \<not> is_digit (hd ?post)"
        by (simp only: append_Nil)
    qed
    show ?thesis unfolding first_digit_run_def
      using split len dig stop by (intro exI [of _ "[]"] exI [of _ ?post]) simp
  next
    case False
    with Cons.prems have "re_search_d35 cs = Some g" by simp
    from Cons.IH [OF this] obtain pre post where
      sp: "cs = pre @ g @ post" and len: "3 \<le> length g" "length g \<le> 5" and dig: "list_all is_digit g"
      and stop: "length g < 5 \<longrightarrow> post = [] \<or> \<not> is_digit (hd post)"
      and first: "\<forall>i < length pre. \<not> digits_at cs i"
      unfolding first_digit_run_def by blast
    have "\<not> digits_at ?l i" if "i < length (c # pre)" for i
    proof (cases i)
      case 0
      with False show ?thesis using digits_at_0 [of ?l] by simp
    next
      case (Suc j)
      with that first show ?thesis by (simp add: digits_at_Suc)
    qed
    then have first': "\<forall>i < length (c # pre). \<not> digits_at ?l i" by blast
    from sp have "?l = (c # pre) @ g @ post" by simp
    with len dig stop first' show ?thesis unfolding first_digit_run_def by blast
  qed
qed

lemma digit_not_space: "is_digit c \<Longrightarrow> \<not> is_num_space c"
  by (simp add: is_digit_def is_num_space_def)

lemma digit_not_sign:
  assumes "is_digit c"
  shows "c \<noteq> CHR ''_''" and "c \<noteq> CHR ''+''" and "c \<noteq> CHR ''-''"
proof -
  have "\<not> is_digit (CHR ''_'')" "\<not> is_digit (CHR ''+'')" "\<not> is_digit (CHR ''-'')"
    by (simp_all add: is_digit_def)
  with assms show "c \<noteq> CHR ''_''" and "c \<noteq> CHR ''+''" and "c \<noteq> CHR ''-''"
    by blast+
qed

lemma digitpart_digits: "g \<noteq> [] \<Longrightarrow> list_all is_digit g \<Longrightarrow> digitpart g"
proof (induction g rule: digitpart.induct)
  case 1
  then show ?case by simp
next
  case (2 c)
  then show ?case by simp
next
  case (3 c d cs)
  then have "is_digit d" by simp
  then have "d \<noteq> CHR ''_''" by (rule digit_not_sign(1))
  with 3 show ?case by simp
qed

lemma filter_digits: "list_all is_digit g \<Longrightarrow> filter not_underscore g = g"
  by (induction g) (simp_all add: not_underscore_def digit_not_sign(1))

lemma num_strip_digits:
  assumes "g \<noteq> []" and "list_all is_digit g"
  shows "num_strip g = g"
proof -
  from assms have "is_digit (hd g)" and "is_digit (last g)"
    by (simp_all add: list_all_iff)
  then have h: "\<not> is_num_space (hd g)" and l: "\<not> is_num_space (last g)"
    by (simp_all add: digit_not_space)
  from assms(1) l have "\<not> is_num_space (hd (rev g))" by (simp add: hd_rev)
  with assms(1) have "dropWhile is_num_space (rev g) = rev g"
    by (cases "rev g") simp_all
  moreover from assms(1) h have "dropWhile is_num_space g = g"
    by (cases g) simp_all
  ultimately show ?thesis by (simp add: num_strip_def)
qed

lemma py_int_digits:
  assumes "g \<noteq> []" and "list_all is_digit g" and "length g \<le> int_max_str_digits"
  shows "py_int g = Inr (int (dec_nat g))"
proof -
  from assms(1,2) have "is_digit (hd g)" by (cases g) simp_all
  then have "hd g \<noteq> CHR ''+''" "hd g \<noteq> CHR ''-''" by (simp_all add: digit_not_sign)
  with assms(1) have "split_sign g = (False, g)"
    by (cases g) (simp_all add: split_sign_def)
  with assms show ?thesis
    by (simp add: py_int_def num_strip_digits digitpart_digits filter_digits)
qed

lemma re_search_py_int: "re_search_d35 l = Some g \<Longrightarrow> py_int g = Inr (int (dec_nat g))"
proof -
  assume "re_search_d35 l = Some g"
  from re_search_first [OF this] have "3 \<le> length g" "length g \<le> 5" "list_all is_digit g"
    unfolding first_digit_run_def by blast+
  then show ?thesis by (intro py_int_digits) (auto simp: int_max_str_digits_def)
qed

lemma fan_names_loop_result:
  "\<exists>fans'. fan_names_loop l names fans = Inr fans' \<and>
     (\<forall>name. map_of fans' name =
        (if name \<in> set names \<and> fan_line_match name l then line_rpm l else map_of fans name))"
proof (induction names arbitrary: fans)
  case Nil
  then show ?case by simp
next
  case (Cons n rest)
  show ?case
  proof (cases "fan_line_match n l")
    case False
    then have "fan_names_loop l (n # rest) fans = fan_names_loop l rest fans"
      by (auto simp: fan_line_match_def)
    with Cons.IH [of fans] False show ?thesis by auto
  next
    case True
    then obtain g where g: "re_search_d35 l = Some g" and inn: "str_in n l"
      by (auto simp: fan_line_match_def)
    let ?f1 = "AList.update n (int (dec_nat g)) fans"
    from g inn have "fan_names_loop l (n # rest) fans = fan_names_loop l rest ?f1"
      by (simp add: re_search_py_int)
    moreover from g have "line_rpm l = Some (int (dec_nat g))" by (simp add: line_rpm_def)
    ultimately show ?thesis using Cons.IH [of ?f1] True
      by (auto simp: update_conv')
  qed
qed

lemma line_rpm_match: "fan_line_match name l \<Longrightarrow> line_rpm l \<noteq> None"
  by (auto simp: fan_line_match_def line_rpm_def)

lemma fan_scan_result:
  "\<exists>fans'. fan_scan ls fans = Inr fans' \<and>
     (\<forall>name. map_of fans' name =
        (if name \<in> set FAN_NAMES \<and> filter (fan_line_match name) ls \<noteq> []
         then line_rpm (last (filter (fan_line_match name) ls)) else map_of fans name))"
proof (induction ls arbitrary: fans)
  case Nil
  then show ?case by simp
next
  case (Cons l ls)
  from fan_names_loop_result [of l FAN_NAMES fans] obtain f1 where
    s1: "fan_names_loop l FAN_NAMES fans = Inr f1"
    and m1: "\<And>name. map_of f1 name =
        (if name \<in> set FAN_NAMES \<and> fan_line_match name l then line_rpm l else map_of fans name)"
    by blast
  from Cons.IH [of f1] obtain f2 where
    s2: "fan_scan ls f1 = Inr f2"
    and m2: "\<And>name. map_of f2 name =
        (if name \<in> set FAN_NAMES \<and> filter (fan_line_match name) ls \<noteq> []
         then line_rpm (last (filter (fan_line_match name) ls)) else map_of f1 name)"
    by blast
  from s1 s2 have "fan_scan (l # ls) fans = Inr f2" by simp
  moreover have "map_of f2 name =
        (if name \<in> set FAN_NAMES \<and> filter (fan_line_match name) (l # ls) \<noteq> []
         then line_rpm (last (filter (fan_line_match name) (l # ls))) else map_of fans name)" for name
    using m1 [of name] m2 [of name] by (cases "fan_line_match name l") auto
  ultimately show ?case by blast
qed

lemma fan_scan_empty_iff:
  assumes "fan_scan ls [] = Inr fans"
  shows "fans = [] \<longleftrightarrow> \<not> list_ex (\<lambda>l. list_ex (\<lambda>name. fan_line_match name l) FAN_NAMES) ls"
proof -
  from fan_scan_result [of ls "[]"] assms have m: "\<And>name. map_of fans name =
        (if name \<in> set FAN_NAMES \<and> filter (fan_line_match name) ls \<noteq> []
         then line_rpm (last (filter (fan_line_match name) ls)) else None)"
    by auto
  have hit: "map_of fans name \<noteq> None \<longleftrightarrow> name \<in> set FAN_NAMES \<and> (\<exists>l \<in> set ls. fan_line_match name l)"
    for name
  proof (cases "name \<in> set FAN_NAMES \<and> filter (fan_line_match name) ls \<noteq> []")
    case True
    then have "last (filter (fan_line_match name) ls) \<in> set (filter (fan_line_match name) ls)"
      by (intro last_in_set) simp
    then have "fan_line_match name (last (filter (fan_line_match name) ls))" by simp
    with True m [of name] show ?thesis
      by (auto simp: line_rpm_match filter_empty_conv)
  next
    case False
    with m [of name] show ?thesis by (auto simp: filter_empty_conv)
  qed
  have "fans = [] \<longleftrightarrow> (\<forall>name. map_of fans name = None)"
    by (metis map_of_eq_empty_iff)
  also have "\<dots> \<longleftrightarrow> \<not> (\<exists>name \<in> set FAN_NAMES. \<exists>l \<in> set ls. fan_line_match name l)"
    using hit by blast
  finally show ?thesis by (auto simp: list_ex_iff)
qed

lemma fan_scan_keys:
  assumes "fan_scan ls [] = Inr fans"
  shows "set (map fst fans) \<subseteq> set FAN_NAMES"
proof
  fix name assume "name \<in> set (map fst fans)"
  then have "map_of fans name \<noteq> None" by (simp add: map_of_eq_None_iff)
  moreover from fan_scan_result [of ls "[]"] assms have "map_of fans name =
        (if name \<in> set FAN_NAMES \<and> filter (fan_line_match name) ls \<noteq> []
         then line_rpm (last (filter (fan_line_match name) ls)) else None)"
    by auto
  ultimately show "name \<in> set FAN_NAMES" by (auto split: if_splits)
qed

lemma get_fan_status_completed:
  "\<exists>fans. fan_scan (split_chr NL out) [] = Inr fans \<and>
     get_fan_status (Completed out) = Inr (if fans \<noteq> [] then Some fans else None)"
proof -
  from fan_scan_result [of "split_chr NL out" "[]"] obtain fans where
    "fan_scan (split_chr NL out) [] = Inr fans" by blast
  then show ?thesis by (simp add: get_fan_status_def fan_body_def)
qed

lemma get_fan_status_failed:
  "get_fan_status TimedOut = Inr None" "get_fan_status NotFound = Inr None"
  by (simp_all add: get_fan_status_def fan_body_def)

lemma first_digit_run_digits_at: "first_digit_run l g \<Longrightarrow> \<exists>i. digits_at l i"
proof -
  assume "first_digit_run l g"
  then obtain pre post where sp: "l = pre @ g @ post" and len: "3 \<le> length g"
    and dig: "list_all is_digit g"
    unfolding first_digit_run_def by blast
  have "l ! (length pre + k) = g ! k \<and> is_digit (g ! k)" if "k < 3" for k
    using that len dig sp by (simp add: nth_append list_all_length)
  from this [of 0] this [of 1] this [of 2] sp len have "digits_at l (length pre)"
    by (simp add: digits_at_def)
  then show ?thesis ..
qed

lemma re_search_none_iff: "(re_search_d35 l = None) = (\<forall>i. \<not> digits_at l i)"
proof
  assume "re_search_d35 l = None"
  then show "\<forall>i. \<not> digits_at l i" by (simp add: re_search_none)
next
  assume n: "\<forall>i. \<not> digits_at l i"
  show "re_search_d35 l = None"
  proof (cases "re_search_d35 l")
    case None
    then show ?thesis .
  next
    case (Some g)
    from first_digit_run_digits_at [OF re_search_first [OF Some]] n show ?thesis by blast
  qed
qed

lemma log_status_fans:
  "log_status dumps self ev w = (Inr st, w') \<Longrightarrow>
   get_fan_status (ipmitool_run ev) = Inr (fan_status st)"
  by (auto simp: log_status_def Let_def split: prod.splits sum.splits if_splits)

lemmas num_defs = py_int_def num_strip_def is_num_space_def split_sign_def not_underscore_def
  is_digit_def dec_nat_def digit_val_def int_max_str_digits_def

lemma fan_dump_sample_lines:
  "split_chr NL fan_dump_sample =
     [''FAN1 | 4200 RPM | ok'', ''FAN2 | 3000 RPM | ok'', ''FAN1 | 1234567 RPM'']"
  by (simp add: fan_dump_sample_def NL_def)

lemma sample_searches:
  "re_search_d35 ''FAN1 | 4200 RPM | ok'' = Some ''4200''"
  "re_search_d35 ''FAN2 | 3000 RPM | ok'' = Some ''3000''"
  "re_search_d35 ''FAN1 | 1234567 RPM'' = Some ''12345''"
  "re_search_d35 no_reading_line = None"
  by (simp_all add: is_digit_def no_reading_line_def)

lemma sample_matches:
  "filter (fan_line_match ''FAN1'') (split_chr NL fan_dump_sample) =
     [''FAN1 | 4200 RPM | ok'', ''FAN1 | 1234567 RPM'']"
  by (simp add: fan_dump_sample_lines fan_line_match_def is_digit_def)

lemma fan_dump_sample_status:
  "get_fan_status (Completed fan_dump_sample) = Inr (Some [(''FAN1'', 12345), (''FAN2'', 3000)])"
  by (simp add: get_fan_status_def fan_body_def fan_dump_sample_lines FAN_NAMES_def num_defs)

lemma no_reading_status:
  "get_fan_status (Completed no_reading_line) = Inr None"
proof -
  have "split_chr NL no_reading_line = [''FAN1 | no reading | ns'']"
    by (simp add: no_reading_line_def NL_def)
  then show ?thesis
    by (simp add: get_fan_status_def fan_body_def FAN_NAMES_def no_reading_line_def
        is_digit_def)
qed

lemma sample_clock_iso: "isoformat sample_clock = ''2024-01-02T03:04:05''"
  by code_simp

lemma quiet_poll: "fst (log_status timestamp sample_sensor quiet_env empty_world) = Inr quiet_status"
  by (simp add: log_status_def quiet_env_def empty_world_def get_drive_temperatures_def
      drive_body_def drive_line_def NL_def get_cpu_temperature_def cpu_body_def strip_def
      get_fan_status_failed append_file_def quiet_status_def sample_clock_iso)

section \<open>The clock and the log file\<close>

lemma of_char_digit_chr: "of_char (digit_chr n) = 48 + n mod 10"
  unfolding digit_chr_def by (simp add: of_char_of)

lemma digit_chr_eq: "digit_chr a = digit_chr b \<Longrightarrow> a mod 10 = b mod 10"
proof -
  assume "digit_chr a = digit_chr b"
  then have "(of_char (digit_chr a) :: nat) = of_char (digit_chr b)" by simp
  then show ?thesis by (simp add: of_char_digit_chr)
qed

lemma div_mod_10_eq: "(a::nat) div 10 = b div 10 \<Longrightarrow> a mod 10 = b mod 10 \<Longrightarrow> a = b"
  by (metis div_mult_mod_eq)

lemma pad2_inj:
  assumes "pad2 a = pad2 b" and "a < 100" and "b < 100"
  shows "a = b"
proof -
  from assms(1) have c1: "digit_chr (a div 10) = digit_chr (b div 10)"
    and c0: "digit_chr a = digit_chr b"
    by (simp_all add: pad2_def)
  note h = digit_chr_eq [OF c1] and l = digit_chr_eq [OF c0]
  from assms(2,3) have "a div 10 < 10" "b div 10 < 10" by simp_all
  with h have "a div 10 = b div 10" by simp
  from this l show ?thesis by (rule div_mod_10_eq)
qed

lemma pad4_inj:
  assumes "pad4 a = pad4 b" and "a < 10000" and "b < 10000"
  shows "a = b"
proof -
  from assms(1) have c3: "digit_chr (a div 1000) = digit_chr (b div 1000)"
    and c2: "digit_chr (a div 100) = digit_chr (b div 100)"
    and c1: "digit_chr (a div 10) = digit_chr (b div 10)" and c0: "digit_chr a = digit_chr b"
    by (simp_all add: pad4_def)
  note d3 = digit_chr_eq [OF c3] and d2 = digit_chr_eq [OF c2]
    and d1 = digit_chr_eq [OF c1] and d0 = digit_chr_eq [OF c0]
  from assms(2,3) have "a div 1000 < 10" "b div 1000 < 10" by simp_all
  with d3 have e3: "a div 1000 = b div 1000" by simp
  have s2: "n div 100 div 10 = n div 1000" and s1: "n div 10 div 10 = n div 100" for n :: nat
    by (simp_all add: div_mult2_eq)
  from e3 have "a div 100 div 10 = b div 100 div 10" by (simp only: s2)
  from this d2 have e2: "a div 100 = b div 100" by (rule div_mod_10_eq)
  then have "a div 10 div 10 = b div 10 div 10" by (simp only: s1)
  from this d1 have e1: "a div 10 = b div 10" by (rule div_mod_10_eq)
  from e1 d0 show ?thesis by (rule div_mod_10_eq)
qed

lemma strftime_Ymd_inj:
  assumes "strftime_Ymd s = strftime_Ymd t" and "valid_datetime s" and "valid_datetime t"
  shows "date_of s = date_of t"
proof -
  have l4: "length (pad4 n) = 4" and l2: "length (pad2 n) = 2" for n
    by (simp_all add: pad4_def pad2_def)
  from assms(1) have "pad4 (dt_year s) @ (pad2 (dt_month s) @ pad2 (dt_day s))
      = pad4 (dt_year t) @ (pad2 (dt_month t) @ pad2 (dt_day t))"
    by (simp add: strftime_Ymd_def)
  then have y: "pad4 (dt_year s) = pad4 (dt_year t)"
    and r: "pad2 (dt_month s) @ pad2 (dt_day s) = pad2 (dt_month t) @ pad2 (dt_day t)"
    by (simp_all add: l4)
  from r have m: "pad2 (dt_month s) = pad2 (dt_month t)" and d: "pad2 (dt_day s) = pad2 (dt_day t)"
    by (simp_all add: l2)
  from assms(2,3) have "dt_year s < 10000" "dt_year t < 10000" "dt_month s < 100"
    "dt_month t < 100" "dt_day s < 100" "dt_day t < 100"
    by (simp_all add: valid_datetime_def)
  with y m d have "dt_year s = dt_year t" "dt_month s = dt_month t" "dt_day s = dt_day t"
    by (blast intro: pad4_inj pad2_inj)+
  then show ?thesis by (simp add: date_of_def)
qed

lemma log_status_appends:
  assumes "log_status dumps s ev w = (Inr st, w')" and "log_append ev = IoOk"
  shows "files w' = (files w)(log_file s \<mapsto>
            (case files w (log_file s) of None \<Rightarrow> [] | Some old \<Rightarrow> old) @ dumps st @ [NL])"
  using assms
  by (auto simp: log_status_def Let_def append_file_def split: prod.splits sum.splits)

lemma log_status_warns:
  assumes "get_drive_temperatures (sensors_run ev) (stderr w) = (Inr dt, err)"
    and "get_cpu_temperature (thermal_run ev) = Inr ct"
    and "get_fan_status (ipmitool_run ev) = Inr fs"
    and "log_append ev = IoError msg"
  shows "log_status dumps self ev w =
      (Inr \<lparr>timestamp = isoformat (clock ev), drive_temps = dt, cpu_temp = ct, fan_status = fs\<rparr>,
       w\<lparr>stderr := err @ [LogWriteWarning (OSError msg)]\<rparr>)"
  using assms by (simp add: log_status_def Let_def append_file_def)

lemma midnight_clock_iso: "isoformat midnight_clock = ''2024-01-02T00:00:00''"
  by code_simp

lemma sample_dates:
  "strftime_Ymd eve_clock = ''20240101''" "strftime_Ymd sample_clock = ''20240102''"
  by code_simp+

lemma sample_inits:
  "sensor_init ''/var/log/fan_control'' IoOk eve_clock = Inr eve_sensor"
  "sensor_init ''/var/log/fan_control'' IoOk sample_clock = Inr sample_sensor"
  by (simp_all add: sensor_init_def sample_dates eve_sensor_def sample_sensor_def)

lemma sample_valid:
  "valid_datetime eve_clock" "valid_datetime sample_clock" "date_of eve_clock \<noteq> date_of sample_clock"
  by (simp_all add: valid_datetime_def eve_clock_def sample_clock_def date_of_def)

lemma quiet_sources:
  "get_drive_temperatures (Completed []) err = (Inr [], err)"
  "get_cpu_temperature (Completed []) = Inr None"
  "get_fan_status NotFound = Inr None"
  by (simp_all add: get_drive_temperatures_def drive_body_def drive_line_def NL_def
      get_cpu_temperature_def cpu_body_def strip_def get_fan_status_def fan_body_def)

lemma midnight_poll:
  "fst (log_status timestamp eve_sensor midnight_env w) = Inr midnight_status"
  by (simp add: log_status_def midnight_env_def quiet_sources append_file_def
      midnight_status_def midnight_clock_iso)

lemma quiet_poll_any:
  "fst (log_status timestamp eve_sensor quiet_env w) = Inr quiet_status"
  by (simp add: log_status_def quiet_env_def quiet_sources append_file_def
      quiet_status_def sample_clock_iso)

lemma denied_poll:
  "log_status timestamp sample_sensor denied_env empty_world =
     (Inr quiet_status, empty_world\<lparr>stderr := [LogWriteWarning (OSError ''Permission denied'')]\<rparr>)"
  by (simp add: log_status_def denied_env_def quiet_sources append_file_def
      quiet_status_def sample_clock_iso empty_world_def)

text \<open>
  Where the header lines name distinct devices and come before every value line, the
  parser returns a mapping whose keys are the devices of the header lines, in their
  order, and a device whose header line is followed by no value line up to the next
  header line maps to none.
\<close>

lemma drive_temps_headers_first:
  assumes dd: "distinct_devices (split_chr NL out)" and hf: "headers_first (split_chr NL out)"
  shows "\<exists>temps. get_drive_temperatures (Completed out) err = (Inr temps, err) \<and>
         map fst temps = map header_dev (filter is_header (split_chr NL out)) \<and>
         (\<forall>pre h seg post.
            split_chr NL out = pre @ h # seg @ post \<and> is_header h \<and>
            (\<forall>l \<in> set seg. \<not> is_value_line l \<and> \<not> is_header l) \<and>
            (post = [] \<or> is_header (hd post))
            \<longrightarrow> map_of temps (header_dev h) = Some None)"
proof -
  let ?ls = "split_chr NL out"
  from dd have d: "distinct (map header_dev (filter is_header ?ls))"
    by (simp add: distinct_devices_def)
  from hf have nv: "list_all (\<lambda>l. \<not> is_value_line l) (takeWhile (\<lambda>l. \<not> is_header l) ?ls)"
    by (simp add: headers_first_def)
  from drive_scan_no_raise [OF nv] obtain temps c where
    sc: "drive_scan ?ls ([], None) = Inr (temps, c)" by (metis surj_pair)
  then have g: "get_drive_temperatures (Completed out) err = (Inr temps, err)"
    by (simp add: get_drive_temperatures_def drive_body_def)
  from drive_scan_keys [OF sc d] have k: "map fst temps = map header_dev (filter is_header ?ls)"
    by simp
  have n: "map_of temps (header_dev h) = Some None"
    if "?ls = pre @ h # seg @ post \<and> is_header h \<and>
        (\<forall>l \<in> set seg. \<not> is_value_line l \<and> \<not> is_header l) \<and> (post = [] \<or> is_header (hd post))"
    for pre h seg post
    using that d sc drive_scan_header_none [of pre h seg post "([], None)" temps c] by simp
  from g k n show ?thesis by blast
qed

section \<open>The CPU temperature\<close>

text \<open>
  What holds of \<^verbatim>\<open>get_cpu_temperature\<close>: a readable integer below the float range
  gives its thousandth, unreadable or empty text and a timeout give none, and an integer
  beyond the float range raises \<^verbatim>\<open>OverflowError\<close>.
\<close>

lemma cpu_reading:
  assumes "strip out \<noteq> []" and "py_int (strip out) = Inr n"
    and "\<bar>of_int n\<bar> < float_overflow_bound"
  shows "get_cpu_temperature (Completed out) = Inr (Some (Finite (of_int n / 1000)))"
  using assms by (simp add: get_cpu_temperature_def cpu_body_def int_div_1000_def)

lemma cpu_unreadable:
  assumes "strip out = [] \<or> py_int (strip out) = Inl ValueError"
  shows "get_cpu_temperature (Completed out) = Inr None"
  using assms by (auto simp: get_cpu_temperature_def cpu_body_def)

lemma cpu_timeout: "get_cpu_temperature TimedOut = Inr None"
  by (simp add: get_cpu_temperature_def cpu_body_def)

lemma cpu_overflow:
  assumes "strip out \<noteq> []" and "py_int (strip out) = Inr n"
    and "float_overflow_bound \<le> \<bar>of_int n\<bar>"
  shows "get_cpu_temperature (Completed out) = Inl OverflowError"
  using assms by (simp add: get_cpu_temperature_def cpu_body_def int_div_1000_def)

lemma cpu_example: "get_cpu_temperature (Completed (''45000'' @ [NL])) = Inr (Some (Finite 45))"
  by (simp add: get_cpu_temperature_def cpu_body_def int_div_1000_def float_overflow_bound_def
      strip_def is_space_def NL_def num_defs)

section \<open>The claims\<close>

text \<open>
  C1 (the snapshot capture never raises, whatever the three sources give): the code
  does not have this property. When standard output of the drive-temperature command
  is the single value line above, \<^verbatim>\<open>log_status\<close> leaves with
  \<^verbatim>\<open>UnboundLocalError\<close>, whatever the clock, the other two sources and the log file
  do, and nothing is written.
\<close>

theorem C1_log_status_raises_on_early_value_line:
  "log_status dumps self
     \<lparr>clock = t, sensors_run = Completed value_line_41, thermal_run = r1,
      ipmitool_run = r2, log_append = io\<rparr> w
   = (Inl UnboundLocalError, w)"
  by (simp add: log_status_def get_drive_temperatures_def drive_body_def
      value_line_41_def NL_def DEG_def drive_line_def)

text \<open>
  C2 (a value line before any header line is ignored and does not throw): the code
  does not have this property. On the value line followed by a header line the drive
  parser raises \<^verbatim>\<open>UnboundLocalError\<close>, which its handler does not catch.
\<close>

theorem C2_value_line_before_header_raises:
  "get_drive_temperatures
     (Completed (value_line_41 @ [NL] @ ''drivetemp-scsi-0-f0'')) err
   = (Inl UnboundLocalError, err)"
  by (simp add: get_drive_temperatures_def drive_body_def value_line_41_def NL_def
      DEG_def drive_line_def)

text \<open>
  C5 (the CPU temperature is \<open>N / 1000.0\<close> for a millidegree integer \<open>N\<close>, and none
  for non-numeric or empty text or a failed reader): the code does not have the last
  part. When the command cannot be started, \<^verbatim>\<open>FileNotFoundError\<close> leaves
  \<^verbatim>\<open>get_cpu_temperature\<close>: its handler names \<^verbatim>\<open>TimeoutExpired\<close> and
  \<^verbatim>\<open>ValueError\<close> only.
\<close>

theorem C5_cpu_reader_not_found_raises:
  "get_cpu_temperature NotFound = Inl FileNotFoundError"
  by (simp add: get_cpu_temperature_def cpu_body_def)

text \<open>
  C4 (every header line of a well-formed dump produces one key, a device with no value
  line maps to none, and the header of \<open>f0\<close> with its value line gives \<open>41.0\<close>): the
  code does not have this property. On a dump that lists another chip before the drive,
  the value line of that chip is met while \<^verbatim>\<open>device_id\<close> is unbound: the parser
  raises \<^verbatim>\<open>UnboundLocalError\<close> and returns no mapping, although the dump holds one
  header line, for device \<open>f0\<close>, followed by its value line.
\<close>

theorem C4_other_chip_first_raises:
  "map header_dev (filter is_header (split_chr NL other_chip_first_dump)) = [''f0''] \<and>
   get_drive_temperatures (Completed other_chip_first_dump) err = (Inl UnboundLocalError, err)"
  by (simp add: other_chip_first_dump_def value_line_41_def NL_def DEG_def is_header_def
      header_dev_def get_drive_temperatures_def drive_body_def drive_line_def)

text \<open>
  C10: a line that holds the header marker but splits into fewer than three
  hyphen-separated parts leaves the mapping and the current device as they are, so the
  scan goes on as if the line were not there; in particular a value line after it is
  stored under the device that was current before it.
\<close>

theorem C10_short_header_is_skipped:
  "str_in ''drivetemp-scsi'' line \<and> length (split_chr (CHR ''-'') line) < 3 \<longrightarrow>
     drive_line line st = Inr st \<and>
     drive_scan (pre @ line # post) st0 = drive_scan (pre @ post) st0 \<and>
     (\<forall>(temps :: temps_dict) d v tline.
        d \<noteq> [] \<and> d \<in> set (map fst temps) \<and> is_value_line tline \<and> temp_value tline = Inr v
        \<longrightarrow> drive_scan [line, tline] (temps, Some d)
              = Inr (AList.update d (Some v) temps, Some d))"
proof (intro impI conjI allI)
  assume a: "str_in ''drivetemp-scsi'' line \<and> length (split_chr (CHR ''-'') line) < 3"
  then have noop: "drive_line line s = Inr s" for s
    by (simp add: drive_line_short_header)
  show "drive_line line st = Inr st" by (rule noop)
  show "drive_scan (pre @ line # post) st0 = drive_scan (pre @ post) st0"
    by (simp add: drive_scan_append noop split: sum.splits)
  fix temps :: temps_dict and d v tline
  assume "d \<noteq> [] \<and> d \<in> set (map fst temps) \<and> is_value_line tline \<and> temp_value tline = Inr v"
  then show "drive_scan [line, tline] (temps, Some d) = Inr (AList.update d (Some v) temps, Some d)"
    by (simp add: noop drive_line_value)
qed

text \<open>
  The theorem at the line \<^verbatim>\<open>drivetemp-scsi\<close>, between the header line of \<open>f0\<close>
  and the value line.
\<close>

theorem C10_short_header_is_skipped_witness:
  "str_in ''drivetemp-scsi'' ''drivetemp-scsi'' \<and>
   length (split_chr (CHR ''-'') ''drivetemp-scsi'') < 3 \<and>
   drive_line ''drivetemp-scsi'' ([(''f0'', None)], Some ''f0'') = Inr ([(''f0'', None)], Some ''f0'') \<and>
   drive_scan [''drivetemp-scsi-0-f0'', ''drivetemp-scsi'', value_line_41] ([], None)
     = Inr ([(''f0'', Some (Finite 41))], Some ''f0'')"
proof -
  have a: "str_in ''drivetemp-scsi'' ''drivetemp-scsi'' \<and>
      length (split_chr (CHR ''-'') ''drivetemp-scsi'') < 3"
    by simp
  note inst = C10_short_header_is_skipped [of "''drivetemp-scsi''" "([(''f0'', None)], Some ''f0'')"
      "[''drivetemp-scsi-0-f0'']" "[value_line_41]" "([], None)", THEN mp, OF a]
  note s1 = inst [THEN conjunct1]
  note s2 = inst [THEN conjunct2, THEN conjunct1]
  have "drive_scan ([''drivetemp-scsi-0-f0''] @ [value_line_41]) ([], None)
      = Inr ([(''f0'', Some (Finite 41))], Some ''f0'')"
    by (simp add: drive_line_header drive_line_value sample_line_facts value_line_41_facts)
  with s2 have s3: "drive_scan [''drivetemp-scsi-0-f0'', ''drivetemp-scsi'', value_line_41] ([], None)
     = Inr ([(''f0'', Some (Finite 41))], Some ''f0'')" by simp
  show ?thesis
  proof (intro conjI)
    show "str_in ''drivetemp-scsi'' ''drivetemp-scsi''" by (rule a [THEN conjunct1])
    show "length (split_chr (CHR ''-'') ''drivetemp-scsi'') < 3" by (rule a [THEN conjunct2])
    show "drive_line ''drivetemp-scsi'' ([(''f0'', None)], Some ''f0'') = Inr ([(''f0'', None)], Some ''f0'')"
      by (rule s1)
    show "drive_scan [''drivetemp-scsi-0-f0'', ''drivetemp-scsi'', value_line_41] ([], None)
     = Inr ([(''f0'', Some (Finite 41))], Some ''f0'')" by (rule s3)
  qed
qed

text \<open>
  C9: whatever the fan command does, the fan-status parser returns none or a non-empty
  mapping whose keys are among FAN1, FAN2, FAN3, FAN4, FANA and FANB; it raises nothing
  and never returns an empty mapping.
\<close>

theorem C9_fan_status_never_empty:
  "get_fan_status r = Inr None \<or>
   (\<exists>fans. get_fan_status r = Inr (Some fans) \<and> fans \<noteq> [] \<and>
      set (map fst fans) \<subseteq> set FAN_NAMES)"
proof (cases r)
  case (Completed out)
  from get_fan_status_completed [of out] obtain fans where
    sc: "fan_scan (split_chr NL out) [] = Inr fans"
    and g: "get_fan_status (Completed out) = Inr (if fans \<noteq> [] then Some fans else None)"
    by blast
  from fan_scan_keys [OF sc] g Completed show ?thesis by (cases "fans = []") simp_all
next
  case TimedOut
  then show ?thesis by (simp add: get_fan_status_failed)
next
  case NotFound
  then show ?thesis by (simp add: get_fan_status_failed)
qed

text \<open>The theorem at an output with two channels, and an output with no speed.\<close>

theorem C9_fan_status_never_empty_witness:
  "get_fan_status (Completed fan_dump_sample) = Inr (Some [(''FAN1'', 12345), (''FAN2'', 3000)]) \<and>
   set (map fst [(''FAN1'', 12345 :: int), (''FAN2'', 3000)]) \<subseteq> set FAN_NAMES \<and>
   get_fan_status (Completed no_reading_line) = Inr None"
proof -
  from C9_fan_status_never_empty [of "Completed fan_dump_sample"]
  have "set (map fst [(''FAN1'', 12345 :: int), (''FAN2'', 3000)]) \<subseteq> set FAN_NAMES"
    unfolding fan_dump_sample_status by simp
  with fan_dump_sample_status no_reading_status show ?thesis by (intro conjI)
qed

text \<open>
  C3, as the spec states it (fans is none exactly when the tool failed or timed out, an
  empty mapping when it ran and matched nothing), fails on the code: the tool ran and
  printed a line with no speed, and the result is none, not an empty mapping.
\<close>

theorem C3_fans_none_counterexample:
  "subprocess_run (Completed no_reading_line) = Inr no_reading_line \<and>
   get_fan_status (Completed no_reading_line) = Inr None \<and>
   get_fan_status (Completed no_reading_line) \<noteq> Inr (Some [])"
  by (simp add: no_reading_status)

text \<open>
  C3, amended: the fans result is none exactly when the fan tool timed out, was not
  found, or ran and no line of its output counts for a recognized channel; it is never
  an empty mapping; and the fans field of a snapshot that a poll returns is this result.
\<close>

theorem C3_fans_none_iff:
  "(get_fan_status r = Inr None \<longleftrightarrow>
      (r = TimedOut \<or> r = NotFound \<or> (\<exists>out. r = Completed out \<and> \<not> fan_matched out))) \<and>
   get_fan_status r \<noteq> Inr (Some []) \<and>
   (log_status dumps self ev w = (Inr st, w') \<longrightarrow>
      get_fan_status (ipmitool_run ev) = Inr (fan_status st))"
proof (intro conjI impI)
  show "get_fan_status r = Inr None \<longleftrightarrow>
      (r = TimedOut \<or> r = NotFound \<or> (\<exists>out. r = Completed out \<and> \<not> fan_matched out))"
  proof (cases r)
    case (Completed out)
    from get_fan_status_completed [of out] obtain fans where
      sc: "fan_scan (split_chr NL out) [] = Inr fans"
      and g: "get_fan_status (Completed out) = Inr (if fans \<noteq> [] then Some fans else None)"
      by blast
    from fan_scan_empty_iff [OF sc] have "fans = [] \<longleftrightarrow> \<not> fan_matched out"
      by (simp add: fan_matched_def)
    with g Completed show ?thesis by (cases "fans = []") simp_all
  next
    case TimedOut
    then show ?thesis by (simp add: get_fan_status_failed)
  next
    case NotFound
    then show ?thesis by (simp add: get_fan_status_failed)
  qed
next
  show "get_fan_status r \<noteq> Inr (Some [])"
  proof (cases r)
    case (Completed out)
    from get_fan_status_completed [of out] obtain fans where
      "get_fan_status (Completed out) = Inr (if fans \<noteq> [] then Some fans else None)"
      by blast
    with Completed show ?thesis by (cases "fans = []") simp_all
  next
    case TimedOut
    then show ?thesis by (simp add: get_fan_status_failed)
  next
    case NotFound
    then show ?thesis by (simp add: get_fan_status_failed)
  qed
next
  assume "log_status dumps self ev w = (Inr st, w')"
  then show "get_fan_status (ipmitool_run ev) = Inr (fan_status st)"
    by (rule log_status_fans)
qed

text \<open>
  The theorem at an output that matches nothing, at one that matches, and at a poll that
  returns a snapshot.
\<close>

theorem C3_fans_none_iff_witness:
  "\<not> fan_matched no_reading_line \<and>
   get_fan_status (Completed no_reading_line) = Inr None \<and>
   fan_matched fan_dump_sample \<and>
   get_fan_status (Completed fan_dump_sample) \<noteq> Inr None \<and>
   fst (log_status timestamp sample_sensor quiet_env empty_world) = Inr quiet_status \<and>
   get_fan_status (ipmitool_run quiet_env) = Inr (fan_status quiet_status)"
proof -
  have nm: "\<not> fan_matched no_reading_line"
    by (simp add: fan_matched_def no_reading_line_def NL_def FAN_NAMES_def fan_line_match_def
        is_digit_def)
  have m: "fan_matched fan_dump_sample"
    by (simp add: fan_matched_def fan_dump_sample_lines FAN_NAMES_def fan_line_match_def
        is_digit_def)
  note i1 = C3_fans_none_iff [of "Completed no_reading_line", THEN conjunct1]
  from i1 nm have a: "get_fan_status (Completed no_reading_line) = Inr None" by simp
  note i2 = C3_fans_none_iff [of "Completed fan_dump_sample", THEN conjunct1]
  from i2 m have b: "get_fan_status (Completed fan_dump_sample) \<noteq> Inr None" by simp
  have "log_status timestamp sample_sensor quiet_env empty_world
      = (Inr quiet_status, snd (log_status timestamp sample_sensor quiet_env empty_world))"
    using quiet_poll by (simp add: prod_eq_iff)
  with C3_fans_none_iff [of _ timestamp sample_sensor quiet_env empty_world quiet_status,
      THEN conjunct2, THEN conjunct2]
  have c: "get_fan_status (ipmitool_run quiet_env) = Inr (fan_status quiet_status)" by (rule mp)
  from nm a m b quiet_poll c show ?thesis by (intro conjI)
qed

text \<open>
  C8: when lines of the fan output count for a recognized channel (they hold its name
  and three digits in a row), the speed stored for the channel is the one of the last
  such line; the speed of a line is the number written by its first run of three to five
  digits, which is what the search returns, and the search finds nothing exactly when no
  three digits stand in a row.
\<close>

theorem C8_last_match_wins:
  "(name \<in> set FAN_NAMES \<and> filter (fan_line_match name) (split_chr NL out) \<noteq> [] \<longrightarrow>
      (\<exists>fans g. get_fan_status (Completed out) = Inr (Some fans) \<and>
         first_digit_run (last (filter (fan_line_match name) (split_chr NL out))) g \<and>
         map_of fans name = Some (int (dec_nat g)))) \<and>
   (re_search_d35 l = Some g' \<longrightarrow> first_digit_run l g') \<and>
   ((re_search_d35 l = None) = (\<forall>i. \<not> digits_at l i))"
proof (intro conjI impI)
  assume a: "name \<in> set FAN_NAMES \<and> filter (fan_line_match name) (split_chr NL out) \<noteq> []"
  let ?ms = "filter (fan_line_match name) (split_chr NL out)"
  from a have "last ?ms \<in> set ?ms" by (intro last_in_set) simp
  then have "fan_line_match name (last ?ms)" by simp
  then obtain g where g: "re_search_d35 (last ?ms) = Some g"
    by (auto simp: fan_line_match_def)
  then have rpm: "line_rpm (last ?ms) = Some (int (dec_nat g))" by (simp add: line_rpm_def)
  from fan_scan_result [of "split_chr NL out" "[]"] obtain fans where
    sc: "fan_scan (split_chr NL out) [] = Inr fans"
    and m: "\<And>n. map_of fans n =
        (if n \<in> set FAN_NAMES \<and> filter (fan_line_match n) (split_chr NL out) \<noteq> []
         then line_rpm (last (filter (fan_line_match n) (split_chr NL out))) else map_of [] n)"
    by blast
  from m [of name] a rpm have v: "map_of fans name = Some (int (dec_nat g))" by simp
  then have "fans \<noteq> []" by auto
  with sc have "get_fan_status (Completed out) = Inr (Some fans)"
    by (simp add: get_fan_status_def fan_body_def)
  with v re_search_first [OF g]
  show "\<exists>fans g. get_fan_status (Completed out) = Inr (Some fans) \<and>
         first_digit_run (last ?ms) g \<and> map_of fans name = Some (int (dec_nat g))"
    by blast
next
  assume "re_search_d35 l = Some g'"
  then show "first_digit_run l g'" by (rule re_search_first)
next
  show "(re_search_d35 l = None) = (\<forall>i. \<not> digits_at l i)" by (rule re_search_none_iff)
qed

text \<open>
  The theorem at an output where FAN1 stands on two lines, the second with a run of
  seven digits: the first five of them are the speed.
\<close>

theorem C8_last_match_wins_witness:
  "''FAN1'' \<in> set FAN_NAMES \<and>
   filter (fan_line_match ''FAN1'') (split_chr NL fan_dump_sample)
     = [''FAN1 | 4200 RPM | ok'', ''FAN1 | 1234567 RPM''] \<and>
   get_fan_status (Completed fan_dump_sample) = Inr (Some [(''FAN1'', 12345), (''FAN2'', 3000)]) \<and>
   re_search_d35 ''FAN1 | 1234567 RPM'' = Some ''12345'' \<and>
   first_digit_run ''FAN1 | 1234567 RPM'' ''12345'' \<and>
   (\<exists>fans g. get_fan_status (Completed fan_dump_sample) = Inr (Some fans) \<and>
      first_digit_run ''FAN1 | 1234567 RPM'' g \<and> map_of fans ''FAN1'' = Some (int (dec_nat g)))"
proof -
  have n: "''FAN1'' \<in> set FAN_NAMES" by (simp add: FAN_NAMES_def)
  note inst = C8_last_match_wins [of "''FAN1''" fan_dump_sample "''FAN1 | 1234567 RPM''" "''12345''"]
  from inst [THEN conjunct2, THEN conjunct1] sample_searches(3)
  have f: "first_digit_run ''FAN1 | 1234567 RPM'' ''12345''" by (rule mp)
  from n have "''FAN1'' \<in> set FAN_NAMES \<and>
      filter (fan_line_match ''FAN1'') (split_chr NL fan_dump_sample) \<noteq> []"
    by (simp add: sample_matches)
  with inst [THEN conjunct1]
  have "\<exists>fans g. get_fan_status (Completed fan_dump_sample) = Inr (Some fans) \<and>
      first_digit_run (last (filter (fan_line_match ''FAN1'') (split_chr NL fan_dump_sample))) g \<and>
      map_of fans ''FAN1'' = Some (int (dec_nat g))"
    by (rule mp)
  then have e: "\<exists>fans g. get_fan_status (Completed fan_dump_sample) = Inr (Some fans) \<and>
      first_digit_run ''FAN1 | 1234567 RPM'' g \<and> map_of fans ''FAN1'' = Some (int (dec_nat g))"
    by (simp add: sample_matches)
  from n sample_matches fan_dump_sample_status sample_searches(3) f e show ?thesis
    by (intro conjI)
qed

text \<open>
  C6, as the spec states it (the file is named after the date of the snapshot's own
  timestamp), fails on the code: a sensor object constructed on 2024-01-01 and polled at
  midnight returns a snapshot stamped 2024-01-02 and appends it to the file of
  2024-01-01; the file of 2024-01-02 is not written.
\<close>

theorem C6_snapshot_date_counterexample:
  "sensor_init ''/var/log/fan_control'' IoOk eve_clock = Inr eve_sensor \<and>
   fst (log_status timestamp eve_sensor midnight_env empty_world) = Inr midnight_status \<and>
   timestamp midnight_status = ''2024-01-02T00:00:00'' \<and>
   files (snd (log_status timestamp eve_sensor midnight_env empty_world))
     (''/var/log/fan_control'', ''fan_monitor_20240102.log'') = None \<and>
   files (snd (log_status timestamp eve_sensor midnight_env empty_world))
     (''/var/log/fan_control'', ''fan_monitor_20240101.log'')
     = Some (''2024-01-02T00:00:00'' @ [NL])"
proof -
  let ?r = "log_status timestamp eve_sensor midnight_env empty_world"
  have "?r = (Inr midnight_status, snd ?r)"
    using midnight_poll [of empty_world] by (simp add: prod_eq_iff)
  moreover have "log_append midnight_env = IoOk" by (simp add: midnight_env_def)
  ultimately have "files (snd ?r) = (files empty_world)(log_file eve_sensor \<mapsto>
      (case files empty_world (log_file eve_sensor) of None \<Rightarrow> [] | Some old \<Rightarrow> old)
        @ timestamp midnight_status @ [NL])"
    by (rule log_status_appends)
  then have "files (snd ?r) (''/var/log/fan_control'', ''fan_monitor_20240102.log'') = None"
    and "files (snd ?r) (''/var/log/fan_control'', ''fan_monitor_20240101.log'')
     = Some (''2024-01-02T00:00:00'' @ [NL])"
    by (simp_all add: empty_world_def eve_sensor_def midnight_status_def)
  with sample_inits(1) midnight_poll [of empty_world] show ?thesis
    by (simp add: midnight_status_def)
qed

text \<open>
  C6, amended: the logger appends the serialized record to the file
  \<^verbatim>\<open>fan_monitor_YYYYMMDD.log\<close> of the log directory, where the date is the one the
  clock gave when the sensor object was constructed; a poll appends its record and a
  newline after what the file holds and touches no other file; hence two polls of the
  same sensor object append two lines to the same file, and sensor objects constructed
  on different calendar dates write to different files.
\<close>

theorem C6_log_file_named_at_construction:
  "(sensor_init dir IoOk t0 = Inr s \<longrightarrow>
      log_file s = (dir, ''fan_monitor_'' @ strftime_Ymd t0 @ ''.log'')) \<and>
   (log_status dumps s ev w = (Inr st, w') \<and> log_append ev = IoOk \<longrightarrow>
      files w' = (files w)(log_file s \<mapsto>
         (case files w (log_file s) of None \<Rightarrow> [] | Some old \<Rightarrow> old) @ dumps st @ [NL])) \<and>
   (log_status dumps s ev1 w = (Inr st1, w1) \<and> log_append ev1 = IoOk \<and>
    log_status dumps s ev2 w1 = (Inr st2, w2) \<and> log_append ev2 = IoOk \<longrightarrow>
      files w2 = (files w)(log_file s \<mapsto>
         (case files w (log_file s) of None \<Rightarrow> [] | Some old \<Rightarrow> old)
           @ dumps st1 @ [NL] @ dumps st2 @ [NL])) \<and>
   (valid_datetime t0 \<and> valid_datetime t1 \<and> date_of t0 \<noteq> date_of t1 \<and>
    sensor_init dir IoOk t0 = Inr s0 \<and> sensor_init dir IoOk t1 = Inr s1 \<longrightarrow>
      log_file s0 \<noteq> log_file s1)"
proof (intro conjI impI)
  assume "sensor_init dir IoOk t0 = Inr s"
  then show "log_file s = (dir, ''fan_monitor_'' @ strftime_Ymd t0 @ ''.log'')"
    by (auto simp: sensor_init_def)
next
  assume "log_status dumps s ev w = (Inr st, w') \<and> log_append ev = IoOk"
  then have "log_status dumps s ev w = (Inr st, w')" and "log_append ev = IoOk" by simp_all
  then show "files w' = (files w)(log_file s \<mapsto>
         (case files w (log_file s) of None \<Rightarrow> [] | Some old \<Rightarrow> old) @ dumps st @ [NL])"
    by (rule log_status_appends)
next
  assume a: "log_status dumps s ev1 w = (Inr st1, w1) \<and> log_append ev1 = IoOk \<and>
    log_status dumps s ev2 w1 = (Inr st2, w2) \<and> log_append ev2 = IoOk"
  then have p1: "log_status dumps s ev1 w = (Inr st1, w1)" and o1: "log_append ev1 = IoOk"
    and p2: "log_status dumps s ev2 w1 = (Inr st2, w2)" and o2: "log_append ev2 = IoOk"
    by simp_all
  from p1 o1 have f1: "files w1 = (files w)(log_file s \<mapsto>
         (case files w (log_file s) of None \<Rightarrow> [] | Some old \<Rightarrow> old) @ dumps st1 @ [NL])"
    by (rule log_status_appends)
  from p2 o2 have f2: "files w2 = (files w1)(log_file s \<mapsto>
         (case files w1 (log_file s) of None \<Rightarrow> [] | Some old \<Rightarrow> old) @ dumps st2 @ [NL])"
    by (rule log_status_appends)
  show "files w2 = (files w)(log_file s \<mapsto>
         (case files w (log_file s) of None \<Rightarrow> [] | Some old \<Rightarrow> old)
           @ dumps st1 @ [NL] @ dumps st2 @ [NL])"
    unfolding f2 f1 by simp
next
  assume a: "valid_datetime t0 \<and> valid_datetime t1 \<and> date_of t0 \<noteq> date_of t1 \<and>
    sensor_init dir IoOk t0 = Inr s0 \<and> sensor_init dir IoOk t1 = Inr s1"
  then have "log_file s0 = (dir, ''fan_monitor_'' @ strftime_Ymd t0 @ ''.log'')"
    and "log_file s1 = (dir, ''fan_monitor_'' @ strftime_Ymd t1 @ ''.log'')"
    by (auto simp: sensor_init_def)
  moreover from a have "strftime_Ymd t0 \<noteq> strftime_Ymd t1"
    using strftime_Ymd_inj [of t0 t1] by blast
  ultimately show "log_file s0 \<noteq> log_file s1" by simp
qed

text \<open>
  The theorem at the sensor object constructed on 2024-01-01, polled twice, and at a
  second one constructed on 2024-01-02.
\<close>

theorem C6_log_file_named_at_construction_witness:
  "sensor_init ''/var/log/fan_control'' IoOk eve_clock = Inr eve_sensor \<and>
   log_file eve_sensor = (''/var/log/fan_control'', ''fan_monitor_'' @ strftime_Ymd eve_clock @ ''.log'') \<and>
   fst (log_status timestamp eve_sensor midnight_env empty_world) = Inr midnight_status \<and>
   log_append midnight_env = IoOk \<and> log_append quiet_env = IoOk \<and>
   files (snd (log_status timestamp eve_sensor midnight_env empty_world)) (log_file eve_sensor)
     = Some (''2024-01-02T00:00:00'' @ [NL]) \<and>
   files (snd (log_status timestamp eve_sensor quiet_env
                 (snd (log_status timestamp eve_sensor midnight_env empty_world))))
       (log_file eve_sensor)
     = Some (''2024-01-02T00:00:00'' @ [NL] @ ''2024-01-02T03:04:05'' @ [NL]) \<and>
   valid_datetime eve_clock \<and> valid_datetime sample_clock \<and>
   date_of eve_clock \<noteq> date_of sample_clock \<and>
   sensor_init ''/var/log/fan_control'' IoOk sample_clock = Inr sample_sensor \<and>
   log_file eve_sensor \<noteq> log_file sample_sensor"
proof -
  let ?r1 = "log_status timestamp eve_sensor midnight_env empty_world"
  let ?r2 = "log_status timestamp eve_sensor quiet_env (snd ?r1)"
  note inst = C6_log_file_named_at_construction [of "''/var/log/fan_control''" eve_clock
      eve_sensor timestamp midnight_env empty_world midnight_status "snd ?r1"
      midnight_env midnight_status "snd ?r1" quiet_env quiet_status "snd ?r2"
      sample_clock eve_sensor sample_sensor]
  have o: "log_append midnight_env = IoOk" "log_append quiet_env = IoOk"
    by (simp_all add: midnight_env_def quiet_env_def)
  have p1: "?r1 = (Inr midnight_status, snd ?r1)"
    using midnight_poll [of empty_world] by (simp add: prod_eq_iff)
  have p2: "?r2 = (Inr quiet_status, snd ?r2)"
    using quiet_poll_any [of "snd ?r1"] by (simp add: prod_eq_iff)
  from inst [THEN conjunct1] sample_inits(1)
  have a: "log_file eve_sensor
      = (''/var/log/fan_control'', ''fan_monitor_'' @ strftime_Ymd eve_clock @ ''.log'')"
    by (rule mp)
  from p1 o(1) have "?r1 = (Inr midnight_status, snd ?r1) \<and> log_append midnight_env = IoOk" ..
  with inst [THEN conjunct2, THEN conjunct1]
  have "files (snd ?r1) = (files empty_world)(log_file eve_sensor \<mapsto>
         (case files empty_world (log_file eve_sensor) of None \<Rightarrow> [] | Some old \<Rightarrow> old)
           @ timestamp midnight_status @ [NL])"
    by (rule mp)
  then have b: "files (snd ?r1) (log_file eve_sensor) = Some (''2024-01-02T00:00:00'' @ [NL])"
    by (simp add: empty_world_def midnight_status_def)
  from p1 p2 o have "?r1 = (Inr midnight_status, snd ?r1) \<and> log_append midnight_env = IoOk \<and>
      ?r2 = (Inr quiet_status, snd ?r2) \<and> log_append quiet_env = IoOk"
    by (intro conjI)
  with inst [THEN conjunct2, THEN conjunct2, THEN conjunct1]
  have "files (snd ?r2) = (files empty_world)(log_file eve_sensor \<mapsto>
         (case files empty_world (log_file eve_sensor) of None \<Rightarrow> [] | Some old \<Rightarrow> old)
           @ timestamp midnight_status @ [NL] @ timestamp quiet_status @ [NL])"
    by (rule mp)
  then have c: "files (snd ?r2) (log_file eve_sensor)
      = Some (''2024-01-02T00:00:00'' @ [NL] @ ''2024-01-02T03:04:05'' @ [NL])"
    by (simp add: empty_world_def midnight_status_def quiet_status_def)
  from sample_valid sample_inits
  have "valid_datetime eve_clock \<and> valid_datetime sample_clock \<and>
      date_of eve_clock \<noteq> date_of sample_clock \<and>
      sensor_init ''/var/log/fan_control'' IoOk eve_clock = Inr eve_sensor \<and>
      sensor_init ''/var/log/fan_control'' IoOk sample_clock = Inr sample_sensor"
    by (intro conjI)
  with inst [THEN conjunct2, THEN conjunct2, THEN conjunct2]
  have d: "log_file eve_sensor \<noteq> log_file sample_sensor" by (rule mp)
  show ?thesis
  proof (intro conjI)
    show "sensor_init ''/var/log/fan_control'' IoOk eve_clock = Inr eve_sensor"
      by (rule sample_inits(1))
    show "log_file eve_sensor
      = (''/var/log/fan_control'', ''fan_monitor_'' @ strftime_Ymd eve_clock @ ''.log'')"
      by (rule a)
    show "fst ?r1 = Inr midnight_status" by (rule midnight_poll)
    show "log_append midnight_env = IoOk" by (rule o(1))
    show "log_append quiet_env = IoOk" by (rule o(2))
    show "files (snd ?r1) (log_file eve_sensor) = Some (''2024-01-02T00:00:00'' @ [NL])"
      by (rule b)
    show "files (snd ?r2) (log_file eve_sensor)
      = Some (''2024-01-02T00:00:00'' @ [NL] @ ''2024-01-02T03:04:05'' @ [NL])"
      by (rule c)
    show "valid_datetime eve_clock" by (rule sample_valid(1))
    show "valid_datetime sample_clock" by (rule sample_valid(2))
    show "date_of eve_clock \<noteq> date_of sample_clock" by (rule sample_valid(3))
    show "sensor_init ''/var/log/fan_control'' IoOk sample_clock = Inr sample_sensor"
      by (rule sample_inits(2))
    show "log_file eve_sensor \<noteq> log_file sample_sensor" by (rule d)
  qed
qed

text \<open>
  C7: when the three readers let the snapshot be assembled and the append to the log
  file fails with an I/O error, \<^verbatim>\<open>log_status\<close> does not raise: it returns the
  snapshot, and the failure is reported as a warning on standard error.
\<close>

theorem C7_log_failure_is_a_warning:
  "get_drive_temperatures (sensors_run ev) (stderr w) = (Inr dt, err) \<and>
   get_cpu_temperature (thermal_run ev) = Inr ct \<and>
   get_fan_status (ipmitool_run ev) = Inr fs \<and>
   log_append ev = IoError msg \<longrightarrow>
   log_status dumps self ev w =
     (Inr \<lparr>timestamp = isoformat (clock ev), drive_temps = dt, cpu_temp = ct, fan_status = fs\<rparr>,
      w\<lparr>stderr := err @ [LogWriteWarning (OSError msg)]\<rparr>)"
  by (simp add: log_status_warns)

text \<open>The theorem at a poll whose append is refused for lack of permission.\<close>

theorem C7_log_failure_is_a_warning_witness:
  "get_drive_temperatures (sensors_run denied_env) (stderr empty_world) = (Inr [], []) \<and>
   get_cpu_temperature (thermal_run denied_env) = Inr None \<and>
   get_fan_status (ipmitool_run denied_env) = Inr None \<and>
   log_append denied_env = IoError ''Permission denied'' \<and>
   log_status timestamp sample_sensor denied_env empty_world =
     (Inr \<lparr>timestamp = isoformat (clock denied_env), drive_temps = [], cpu_temp = None,
           fan_status = None\<rparr>,
      empty_world\<lparr>stderr := [] @ [LogWriteWarning (OSError ''Permission denied'')]\<rparr>)"
proof -
  have h: "get_drive_temperatures (sensors_run denied_env) (stderr empty_world) = (Inr [], []) \<and>
   get_cpu_temperature (thermal_run denied_env) = Inr None \<and>
   get_fan_status (ipmitool_run denied_env) = Inr None \<and>
   log_append denied_env = IoError ''Permission denied''"
    by (simp add: denied_env_def empty_world_def quiet_sources)
  from C7_log_failure_is_a_warning [of denied_env empty_world "[]" "[]" None None
      "''Permission denied''" timestamp sample_sensor, THEN mp, OF h] h
  show ?thesis by (intro conjI) simp_all
qed

end
